theory Spec2Isabelle
  imports Main "HOL-Library.Multiset"
begin

section \<open>Paths (the POSIX flavour of Node's \<^verbatim>\<open>path\<close> module)\<close>

text \<open>
  The extension manipulates paths only through \<^verbatim>\<open>path.sep\<close>, \<^verbatim>\<open>path.join\<close>,
  \<^verbatim>\<open>path.resolve\<close>, \<^verbatim>\<open>path.dirname\<close> and \<^verbatim>\<open>path.basename\<close>. They are modelled
  on strings, segment by segment, the way Node's \<^verbatim>\<open>normalizeString\<close> treats them:
  empty segments and \<^verbatim>\<open>.\<close> are dropped, \<^verbatim>\<open>..\<close> removes the segment before it, and
  above the root \<^verbatim>\<open>..\<close> is dropped (absolute paths) or kept (relative paths).
\<close>

definition sep :: string where
  "sep = ''/''"

fun split_sep :: "string \<Rightarrow> string list" where
  "split_sep [] = [[]]"
| "split_sep (c # cs) =
     (if c = CHR ''/'' then [] # split_sep cs
      else (case split_sep cs of [] \<Rightarrow> [[c]] | s # ss \<Rightarrow> (c # s) # ss))"

fun join_sep :: "string list \<Rightarrow> string" where
  "join_sep [] = []"
| "join_sep [s] = s"
| "join_sep (s # t # ss) = s @ ''/'' @ join_sep (t # ss)"

text \<open>
  \<^verbatim>\<open>normalizeString(path, allowAboveRoot)\<close> on the segments of the path; the
  accumulator holds the segments kept so far, last one first.
\<close>

fun normalizeSegs :: "bool \<Rightarrow> string list \<Rightarrow> string list \<Rightarrow> string list" where
  "normalizeSegs up acc [] = rev acc"
| "normalizeSegs up acc (s # ss) =
     (if s = [] \<or> s = ''.'' then normalizeSegs up acc ss
      else if s = ''..'' then
        (case acc of
           [] \<Rightarrow> normalizeSegs up (if up then [''..''] else []) ss
         | t # acc' \<Rightarrow>
             if t = ''..'' then normalizeSegs up (if up then ''..'' # acc else acc) ss
             else normalizeSegs up acc' ss)
      else normalizeSegs up (s # acc) ss)"

definition normalizeString :: "string \<Rightarrow> bool \<Rightarrow> string" where
  "normalizeString p up = join_sep (normalizeSegs up [] (split_sep p))"

definition isAbsolute :: "string \<Rightarrow> bool" where
  "isAbsolute p = (p \<noteq> [] \<and> hd p = CHR ''/'')"

definition trailingSep :: "string \<Rightarrow> bool" where
  "trailingSep p = (p \<noteq> [] \<and> last p = CHR ''/'')"

definition normalize :: "string \<Rightarrow> string" where
  "normalize p =
     (if p = [] then ''.''
      else let q = normalizeString p (\<not> isAbsolute p) in
        if q = [] then (if isAbsolute p then ''/'' else if trailingSep p then ''./'' else ''.'')
        else (if isAbsolute p then ''/'' else []) @ q @ (if trailingSep p then ''/'' else []))"

text \<open>\<^verbatim>\<open>path.join(a, b)\<close>: the non-empty arguments joined by the separator, normalised.\<close>

definition join :: "string \<Rightarrow> string \<Rightarrow> string" where
  "join a b =
     (let parts = filter (\<lambda>s. s \<noteq> []) [a, b]
      in if parts = [] then ''.'' else normalize (join_sep parts))"

definition join3 :: "string \<Rightarrow> string \<Rightarrow> string \<Rightarrow> string" where
  "join3 a b c =
     (let parts = filter (\<lambda>s. s \<noteq> []) [a, b, c]
      in if parts = [] then ''.'' else normalize (join_sep parts))"

text \<open>
  \<^verbatim>\<open>process.cwd()\<close> is always an absolute path; the working directory is kept as
  the part below the root, so that the string handed to \<^verbatim>\<open>path.resolve\<close> starts with
  the separator whatever the field holds.
\<close>

definition process_cwd :: "string \<Rightarrow> string" where
  "process_cwd below = CHR ''/'' # below"

text \<open>
  \<^verbatim>\<open>path.resolve(a, b)\<close>: arguments are taken from the right until an absolute one
  is met, the working directory last; empty arguments are skipped.
\<close>

definition resolve :: "string \<Rightarrow> string \<Rightarrow> string \<Rightarrow> string" where
  "resolve below a b =
     (let r0 = (if b = [] then [] else b @ ''/'');
          r1 = (if isAbsolute b \<or> a = [] then r0 else a @ ''/'' @ r0);
          r2 = (if isAbsolute b \<or> isAbsolute a then r1 else process_cwd below @ ''/'' @ r1)
      in CHR ''/'' # normalizeString r2 False)"

text \<open>
  \<^verbatim>\<open>path.dirname\<close>: the path up to the last separator that follows a non-separator,
  scanning from the end and never looking at the first character.
\<close>

fun dirname_end :: "string \<Rightarrow> bool \<Rightarrow> nat option" where
  "dirname_end [] matchedSlash = None"
| "dirname_end (c # cs) matchedSlash =
     (if c = CHR ''/'' then (if \<not> matchedSlash then Some (length cs) else dirname_end cs matchedSlash)
      else dirname_end cs False)"

definition dirname :: "string \<Rightarrow> string" where
  "dirname p =
     (if p = [] then ''.''
      else case dirname_end (rev (tl p)) True of
        None \<Rightarrow> (if isAbsolute p then ''/'' else ''.'')
      | Some e \<Rightarrow> (if isAbsolute p \<and> e = 0 then ''//'' else take (Suc e) p))"

text \<open>\<^verbatim>\<open>path.basename\<close>: the last segment, trailing separators ignored.\<close>

definition basename :: "string \<Rightarrow> string" where
  "basename p = (case filter (\<lambda>s. s \<noteq> []) (split_sep p) of [] \<Rightarrow> [] | ss \<Rightarrow> last ss)"

text \<open>
  The canonical segments of a path: what the operating system makes of the string when
  it looks the path up (relative paths start at the working directory).
\<close>

definition canon :: "string \<Rightarrow> string \<Rightarrow> string list" where
  "canon below p =
     normalizeSegs False []
       (split_sep (if isAbsolute p then p else process_cwd below @ ''/'' @ p))"

definition clean :: "string list \<Rightarrow> bool" where
  "clean ss = (\<forall>s \<in> set ss. s \<noteq> [] \<and> s \<noteq> ''.'' \<and> s \<noteq> ''..'' \<and> CHR ''/'' \<notin> set s)"

definition of_segs :: "string list \<Rightarrow> string" where
  "of_segs ss = CHR ''/'' # join_sep ss"

section \<open>The file system\<close>

text \<open>
  A file system is a table from canonical segment lists to entries; the root always
  exists. \<^verbatim>\<open>fs.existsSync\<close> and \<^verbatim>\<open>fs.statSync\<close> read it; a path with a trailing
  separator names a directory only.
\<close>

datatype entry = File string | Dir

datatype error = ENOENT | ENOTDIR | EEXIST | EISDIR | TypeError

record system =
  cwd :: string
  fs :: "(string list \<times> entry) list"

definition lookup :: "system \<Rightarrow> string list \<Rightarrow> entry option" where
  "lookup S k = (if k = [] then Some Dir else map_of (fs S) k)"

definition stat :: "system \<Rightarrow> string \<Rightarrow> entry option" where
  "stat S p =
     (if p = [] then None
      else case lookup S (canon (cwd S) p) of
        Some (File c) \<Rightarrow> (if trailingSep p then None else Some (File c))
      | r \<Rightarrow> r)"

definition existsSync :: "system \<Rightarrow> string \<Rightarrow> bool" where
  "existsSync S p = (stat S p \<noteq> None)"

definition isDirectory :: "system \<Rightarrow> string \<Rightarrow> bool" where
  "isDirectory S p = (stat S p = Some Dir)"

section \<open>Facts about paths\<close>

lemma split_sep_nonempty: "split_sep p \<noteq> []"
  by (induction p) (auto split: list.splits)

lemma split_sep_no_sep: "s \<in> set (split_sep p) \<Longrightarrow> CHR ''/'' \<notin> set s"
  by (induction p arbitrary: s) (auto split: list.splits if_splits)

lemma split_sep_append: "split_sep (x @ CHR ''/'' # y) = split_sep x @ split_sep y"
  by (induction x) (auto split: list.splits simp: split_sep_nonempty)

lemma split_sep_plain: "CHR ''/'' \<notin> set s \<Longrightarrow> split_sep s = [s]"
  by (induction s) auto

lemma split_join_sep:
  "ss \<noteq> [] \<Longrightarrow> \<forall>s \<in> set ss. CHR ''/'' \<notin> set s \<Longrightarrow> split_sep (join_sep ss) = ss"
  by (induction ss rule: join_sep.induct) (auto simp: split_sep_append split_sep_plain)

lemma normalizeSegs_append:
  "normalizeSegs up acc (ss @ ts) = normalizeSegs up (rev (normalizeSegs up acc ss)) ts"
  by (induction up acc ss rule: normalizeSegs.induct) (auto split: list.splits)

lemma normalizeSegs_clean_id: "clean ss \<Longrightarrow> normalizeSegs up acc ss = rev acc @ ss"
  by (induction ss arbitrary: acc) (auto simp: clean_def)

lemma normalizeSegs_clean:
  "clean acc \<Longrightarrow> \<forall>s \<in> set ss. CHR ''/'' \<notin> set s \<Longrightarrow> clean (normalizeSegs False acc ss)"
proof (induction ss arbitrary: acc)
  case Nil
  then show ?case by (simp add: clean_def)
next
  case (Cons s ss)
  have tl: "\<forall>s \<in> set ss. CHR ''/'' \<notin> set s" using Cons.prems(2) by simp
  have s: "CHR ''/'' \<notin> set s" using Cons.prems(2) by simp
  consider (skip) "s = [] \<or> s = ''.''" | (up) "s = ''..''" | (seg) "s \<noteq> []" "s \<noteq> ''.''" "s \<noteq> ''..''"
    by blast
  then show ?case
  proof cases
    case skip
    then show ?thesis using Cons.IH [OF Cons.prems(1) tl] by auto
  next
    case up
    show ?thesis
    proof (cases acc)
      case Nil
      then show ?thesis using up Cons.IH [OF Cons.prems(1) tl] by simp
    next
      case (Cons t acc')
      then have "clean acc'" and "t \<noteq> ''..''" using Cons.prems(1) by (simp_all add: clean_def)
      then show ?thesis using up Cons Cons.IH [of acc', OF _ tl] by simp
    qed
  next
    case seg
    then have "clean (s # acc)" using Cons.prems(1) s by (simp add: clean_def)
    then show ?thesis using seg Cons.IH [of "s # acc", OF _ tl] by simp
  qed
qed

lemma canon_clean: "clean (canon below p)"
  unfolding canon_def by (rule normalizeSegs_clean) (auto simp: clean_def split_sep_no_sep)

lemma clean_butlast: "clean ss \<Longrightarrow> clean (butlast ss)"
  by (auto simp: clean_def dest: in_set_butlastD)

lemma clean_take: "clean ss \<Longrightarrow> clean (take n ss)"
  by (auto simp: clean_def dest: in_set_takeD)

lemma canon_of_segs: "clean ss \<Longrightarrow> canon below (of_segs ss) = ss"
proof (cases "ss = []")
  case True
  then show ?thesis by (simp add: canon_def isAbsolute_def of_segs_def)
next
  case False
  assume c: "clean ss"
  then have "split_sep (join_sep ss) = ss"
    using False by (intro split_join_sep) (auto simp: clean_def)
  then show ?thesis
    using c by (simp add: canon_def isAbsolute_def normalizeSegs_clean_id of_segs_def)
qed

lemma normalizeSegs_dotdot:
  assumes "\<forall>s \<in> set xs. CHR ''/'' \<notin> set s"
  shows "normalizeSegs False [] (xs @ [''..'', []]) = butlast (normalizeSegs False [] xs)"
proof -
  let ?n = "normalizeSegs False [] xs"
  have c: "clean ?n"
    using assms by (intro normalizeSegs_clean) (auto simp: clean_def)
  have "normalizeSegs False [] (xs @ [''..'', []]) = normalizeSegs False (rev ?n) [''..'', []]"
    by (rule normalizeSegs_append)
  also have "\<dots> = butlast ?n"
  proof (cases ?n rule: rev_cases)
    case Nil
    then show ?thesis by simp
  next
    case (snoc ys y)
    with c have "y \<noteq> ''..''" by (auto simp: clean_def)
    with snoc show ?thesis by simp
  qed
  finally show ?thesis .
qed

lemma normalizeSegs_trailing_empty:
  "normalizeSegs up [] (xs @ [[]]) = normalizeSegs up [] xs"
  by (simp add: normalizeSegs_append)

text \<open>The parent of a directory, as the walk computes it, is the canonical path one
  segment shorter.\<close>

lemma resolve_parent: "resolve below dir ''..'' = of_segs (butlast (canon below dir))"
proof -
  consider (abs) "isAbsolute dir" | (empty) "dir = []" | (rel) "\<not> isAbsolute dir" "dir \<noteq> []"
    by blast
  then show ?thesis
  proof cases
    case abs
    then have "dir \<noteq> []" by (auto simp: isAbsolute_def)
    with abs have "resolve below dir ''..''
        = CHR ''/'' # join_sep (normalizeSegs False [] (split_sep dir @ [''..'', []]))"
      using split_sep_append [of dir "''../''"]
      by (simp add: resolve_def isAbsolute_def normalizeString_def)
    then show ?thesis
      using abs by (simp add: canon_def normalizeSegs_dotdot split_sep_no_sep of_segs_def)
  next
    case empty
    have "resolve below dir ''..''
        = CHR ''/'' # join_sep (normalizeSegs False [] (split_sep (process_cwd below) @ [''..'', []]))"
      using empty split_sep_append [of "process_cwd below" "''../''"]
      by (simp add: resolve_def isAbsolute_def normalizeString_def)
    moreover have "canon below dir = normalizeSegs False [] (split_sep (process_cwd below))"
      using empty split_sep_append [of "process_cwd below" "[]"] normalizeSegs_trailing_empty
      by (simp add: canon_def isAbsolute_def)
    ultimately show ?thesis
      by (simp add: normalizeSegs_dotdot split_sep_no_sep of_segs_def)
  next
    case rel
    have "split_sep ((process_cwd below @ ''/'' @ dir) @ ''/'' @ ''../'')
        = split_sep (process_cwd below @ ''/'' @ dir) @ [''..'', []]"
      using split_sep_append [of "process_cwd below @ ''/'' @ dir" "''../''"] by simp
    then have "resolve below dir ''..''
        = CHR ''/'' # join_sep (normalizeSegs False []
            (split_sep (process_cwd below @ ''/'' @ dir) @ [''..'', []]))"
      using rel by (simp add: resolve_def isAbsolute_def normalizeString_def)
    then show ?thesis
      using rel by (simp add: canon_def normalizeSegs_dotdot split_sep_no_sep of_segs_def)
  qed
qed

lemma canon_parent: "canon below (resolve below dir ''..'') = butlast (canon below dir)"
  by (simp add: resolve_parent canon_of_segs clean_butlast canon_clean)

lemma resolve_root: "resolve below ''/'' ''..'' = ''/''"
  by (simp add: resolve_def isAbsolute_def normalizeString_def)

lemma own_parent_iff_root: "resolve below dir ''..'' = dir \<longleftrightarrow> dir = ''/''"
proof
  assume e: "resolve below dir ''..'' = dir"
  have "canon below dir = butlast (canon below dir)"
    using canon_parent [of below dir] unfolding e .
  then have "length (canon below dir) = length (canon below dir) - 1"
    by (metis length_butlast)
  then have nil: "canon below dir = []"
    by (cases "canon below dir") simp_all
  have "dir = of_segs (butlast (canon below dir))"
    using resolve_parent [of below dir] unfolding e .
  then show "dir = ''/''"
    unfolding nil by (simp add: of_segs_def)
next
  assume "dir = ''/''"
  then show "resolve below dir ''..'' = dir" by (simp add: resolve_root)
qed

lemma parent_measure:
  assumes "dir \<noteq> resolve below dir ''..''"
  shows "(let p = resolve below dir ''..'' in
           if resolve below p ''..'' = p then 0 else Suc (length (canon below p)))
         < Suc (length (canon below dir))"
proof (cases "canon below dir = []")
  case True
  then have "resolve below dir ''..'' = ''/''"
    by (simp add: resolve_parent of_segs_def)
  then show ?thesis by (simp add: Let_def resolve_root)
next
  case False
  then show ?thesis by (simp add: Let_def canon_parent)
qed

section \<open>Walking up to the file system's root\<close>

text \<open>
  \<^verbatim>\<open>walkupGitignores(dir, found)\<close> pushes the directory's \<^verbatim>\<open>.gitignore\<close> when it
  exists and recurses on \<^verbatim>\<open>path.resolve(dir, "..")\<close> until a directory is its own
  parent. The array \<^verbatim>\<open>found\<close> is extended in place; here it is passed on.
\<close>

function walkupGitignores :: "system \<Rightarrow> string \<Rightarrow> string list \<Rightarrow> string list" where
  "walkupGitignores S dir found =
     (let gitignore = join dir ''.gitignore'';
          found' = (if existsSync S gitignore then found @ [gitignore] else found);
          parentDir = resolve (cwd S) dir ''..'';
          reachedSystemRoot = (dir = parentDir)
      in if \<not> reachedSystemRoot then walkupGitignores S parentDir found' else found')"
  by pat_completeness auto

termination
proof (relation "measure (\<lambda>(S, dir, found).
    if resolve (cwd S) dir ''..'' = dir then 0 else Suc (length (canon (cwd S) dir)))")
  show "wf (measure (\<lambda>(S, dir, found).
    if resolve (cwd S) dir ''..'' = dir then 0 else Suc (length (canon (cwd S) dir))))"
    by simp
next
  fix S :: system and dir :: string and found x xa xb :: "string list" and xc :: string and xd :: bool
  assume xc: "xc = resolve (cwd S) dir ''..''" and "xd = (dir = xc)" and "\<not> xd"
  then have ne: "dir \<noteq> resolve (cwd S) dir ''..''" by simp
  then have ne': "resolve (cwd S) dir ''..'' \<noteq> dir" by simp
  have "(if resolve (cwd S) (resolve (cwd S) dir ''..'') ''..'' = resolve (cwd S) dir ''..'' then 0
         else Suc (length (canon (cwd S) (resolve (cwd S) dir ''..''))))
        < Suc (length (canon (cwd S) dir))"
    using parent_measure [OF ne] unfolding Let_def .
  then show "((S, xc, xb), (S, dir, found)) \<in> measure (\<lambda>(S, dir, found).
    if resolve (cwd S) dir ''..'' = dir then 0 else Suc (length (canon (cwd S) dir)))"
    unfolding xc in_measure prod.case if_not_P [OF ne'] .
qed

declare walkupGitignores.simps [simp del]

text \<open>
  The directories the walk visits, in closed form: the directory itself, then the
  canonical paths above it, longest first, down to the root.
\<close>

definition ancestors :: "string list \<Rightarrow> string list" where
  "ancestors B = map (\<lambda>n. of_segs (take n B)) (rev [0..<Suc (length B)])"

definition walkup_dirs :: "system \<Rightarrow> string \<Rightarrow> string list" where
  "walkup_dirs S dir =
     (if resolve (cwd S) dir ''..'' = dir then [dir]
      else dir # ancestors (butlast (canon (cwd S) dir)))"

definition gitignores_in :: "system \<Rightarrow> string list \<Rightarrow> string list" where
  "gitignores_in S dirs = filter (existsSync S) (map (\<lambda>d. join d ''.gitignore'') dirs)"

text \<open>A small system: a workspace \<^verbatim>\<open>/w\<close> with a subdirectory and two ignore files.\<close>

definition sys0 :: system where
  "sys0 = \<lparr>cwd = ''home/u'',
           fs = [([''w''], Dir), ([''w'', ''p''], Dir), ([''w'', ''.gitignore''], File ''out''),
                 ([''.gitignore''], File ''tmp''), ([''w'', ''p'', ''a.txt''], File ''hello'')]\<rparr>"

section \<open>The extension's data\<close>

record FSLocation =
  relative :: string
  absolute :: string

record WorkspaceRoot =
  rootPath :: string
  baseName :: string
  multi :: bool

record DirectoryOption =
  displayText :: string
  fsLocation :: FSLocation

text \<open>
  The values the workspace cache holds. The extension stores a \<^verbatim>\<open>DirectoryOption\<close>
  under \<^verbatim>\<open>"last"\<close> and an array of root paths under \<^verbatim>\<open>"recentRoots"\<close>; the cache
  itself is untyped, so a stored value may be any of these. \<^verbatim>\<open>typeof\<close> is JavaScript's:
  \<^verbatim>\<open>null\<close> and arrays are objects.
\<close>

datatype jsval =
    JUndefined
  | JNull
  | JBool bool
  | JNumber int
  | JString string
  | JArray "string list"
  | JObject DirectoryOption

fun typeof :: "jsval \<Rightarrow> string" where
  "typeof JUndefined = ''undefined''"
| "typeof JNull = ''object''"
| "typeof (JBool b) = ''boolean''"
| "typeof (JNumber n) = ''number''"
| "typeof (JString s) = ''string''"
| "typeof (JArray xs) = ''object''"
| "typeof (JObject d) = ''object''"

text \<open>
  The cache of the \<^verbatim>\<open>vscode-cache\<close> package, without expirations (the extension sets
  none): \<^verbatim>\<open>has\<close>, \<^verbatim>\<open>get\<close>, \<^verbatim>\<open>put\<close> and \<^verbatim>\<open>forget\<close> on a table of keys.
\<close>

type_synonym cache = "string \<rightharpoonup> jsval"

definition cache_has :: "cache \<Rightarrow> string \<Rightarrow> bool" where
  "cache_has c k = (c k \<noteq> None)"

definition cache_get :: "cache \<Rightarrow> string \<Rightarrow> jsval" where
  "cache_get c k = (case c k of None \<Rightarrow> JUndefined | Some v \<Rightarrow> v)"

definition cache_put :: "cache \<Rightarrow> string \<Rightarrow> jsval \<Rightarrow> cache" where
  "cache_put c k v = c(k \<mapsto> v)"

definition cache_forget :: "cache \<Rightarrow> string \<Rightarrow> cache" where
  "cache_forget c k = c(k := None)"

section \<open>The last selection and the recent roots\<close>

text \<open>
  \<^verbatim>\<open>lastSelection(cache)\<close> returns the stored value or nothing (\<^verbatim>\<open>undefined\<close>, here
  \<open>None\<close>), and the cache as it leaves it.
\<close>

definition lastSelection :: "cache \<Rightarrow> jsval option \<times> cache" where
  "lastSelection c =
     (if \<not> cache_has c ''last'' then (None, c)
      else let v = cache_get c ''last''
           in if typeof v = ''object'' then (Some v, c)
              else (None, cache_forget c ''last''))"

text \<open>\<^verbatim>\<open>Array.prototype.indexOf\<close>: the first index of the element, or \<open>-1\<close>.\<close>

fun indexOf :: "'a list \<Rightarrow> 'a \<Rightarrow> int" where
  "indexOf [] x = - 1"
| "indexOf (y # ys) x =
     (if y = x then 0 else (let i = indexOf ys x in if i < 0 then - 1 else i + 1))"

text \<open>\<^verbatim>\<open>xs.splice(i, 1)\<close>: the element at index \<open>i\<close> is removed.\<close>

definition splice1 :: "'a list \<Rightarrow> nat \<Rightarrow> 'a list" where
  "splice1 xs i = take i xs @ drop (Suc i) xs"

text \<open>
  \<^verbatim>\<open>cache.get("recentRoots") || []\<close>. Only \<^verbatim>\<open>cacheSelection\<close> writes this key, and
  always an array of strings; any other stored value is read as the empty list.
\<close>

definition recentRootsOf :: "cache \<Rightarrow> string list" where
  "recentRootsOf c = (case c ''recentRoots'' of Some (JArray xs) \<Rightarrow> xs | _ \<Rightarrow> [])"

definition cacheSelection :: "cache \<Rightarrow> DirectoryOption \<Rightarrow> WorkspaceRoot \<Rightarrow> cache" where
  "cacheSelection c dir root =
     (let c1 = cache_put c ''last'' (JObject dir);
          recentRoots = recentRootsOf c1;
          rootIndex = indexOf recentRoots (rootPath root);
          recentRoots1 = (if rootIndex \<ge> 0 then splice1 recentRoots (nat rootIndex) else recentRoots);
          recentRoots2 = rootPath root # recentRoots1
      in cache_put c1 ''recentRoots'' (JArray recentRoots2))"

text \<open>
  lodash's \<^verbatim>\<open>sortBy\<close> is a stable sort in ascending order of the key, as is
  \<^const>\<open>sort_key\<close>.
\<close>

definition sortBy :: "('a \<Rightarrow> int) \<Rightarrow> 'a list \<Rightarrow> 'a list" where
  "sortBy f xs = sort_key f xs"

definition desiredKey :: "WorkspaceRoot list \<Rightarrow> string list \<Rightarrow> WorkspaceRoot \<Rightarrow> int" where
  "desiredKey roots desiredOrder root =
     (let desiredIndex = indexOf desiredOrder (rootPath root)
      in if desiredIndex \<ge> 0 then desiredIndex else int (length roots))"

definition sortRoots :: "WorkspaceRoot list \<Rightarrow> string list \<Rightarrow> WorkspaceRoot list" where
  "sortRoots roots desiredOrder = sortBy (desiredKey roots desiredOrder) roots"

text \<open>\<^verbatim>\<open>rootForDir\<close>: the first root whose path is a prefix of the directory's.\<close>

definition startsWith :: "string \<Rightarrow> string \<Rightarrow> bool" where
  "startsWith s t = (take (length t) s = t)"

definition rootForDir :: "WorkspaceRoot list \<Rightarrow> DirectoryOption \<Rightarrow> WorkspaceRoot option" where
  "rootForDir roots dir = List.find (\<lambda>r. startsWith (absolute (fsLocation dir)) (rootPath r)) roots"

text \<open>A directory option and three roots for the examples.\<close>

definition dir0 :: DirectoryOption where
  "dir0 = \<lparr>displayText = ''/p'', fsLocation = \<lparr>relative = ''/p'', absolute = ''/w/p''\<rparr>\<rparr>"

definition rA :: WorkspaceRoot where
  "rA = \<lparr>rootPath = ''/a'', baseName = ''a'', multi = True\<rparr>"

definition rB :: WorkspaceRoot where
  "rB = \<lparr>rootPath = ''/b'', baseName = ''b'', multi = True\<rparr>"

definition rC :: WorkspaceRoot where
  "rC = \<lparr>rootPath = ''/c'', baseName = ''c'', multi = True\<rparr>"

definition cache0 :: cache where
  "cache0 = [''recentRoots'' \<mapsto> JArray [''/b'', ''/a'']]"

section \<open>Creating files and folders\<close>

text \<open>\<^verbatim>\<open>isFolderDescriptor\<close>: the last character of the path is the separator.\<close>

definition isFolderDescriptor :: "string \<Rightarrow> bool" where
  "isFolderDescriptor filepath = (filepath \<noteq> [] \<and> last filepath = CHR ''/'')"

definition fs_put :: "system \<Rightarrow> string list \<Rightarrow> entry \<Rightarrow> system" where
  "fs_put S k e = S\<lparr>fs := (k, e) # filter (\<lambda>kv. fst kv \<noteq> k) (fs S)\<rparr>"

definition is_file :: "entry option \<Rightarrow> bool" where
  "is_file e = (case e of Some (File c) \<Rightarrow> True | _ \<Rightarrow> False)"

text \<open>The non-empty prefixes of a segment list, shortest first: a directory's ancestors
  below the root, and the directory itself.\<close>

definition prefixes_of :: "string list \<Rightarrow> string list list" where
  "prefixes_of k = map (\<lambda>n. take n k) [1..<Suc (length k)]"

text \<open>
  \<^verbatim>\<open>mkdirp.sync(p)\<close> makes the directory and every missing directory above it. It throws
  when a file stands where a directory is needed, and then creates nothing.
\<close>

fun mkdirs :: "system \<Rightarrow> string list list \<Rightarrow> system" where
  "mkdirs S [] = S"
| "mkdirs S (k # ks) = mkdirs (if lookup S k = None then fs_put S k Dir else S) ks"

definition mkdirp_sync :: "system \<Rightarrow> string \<Rightarrow> error + system" where
  "mkdirp_sync S p =
     (let k = canon (cwd S) p; ks = prefixes_of k
      in if list_ex (\<lambda>q. is_file (lookup S q)) ks
         then Inl (if is_file (lookup S k) then EEXIST else ENOTDIR)
         else Inr (mkdirs S ks))"

text \<open>
  \<^verbatim>\<open>fs.appendFileSync(p, data)\<close> creates the file when it is missing and appends to it
  otherwise; the directory of the file must exist.
\<close>

definition appendFileSync :: "system \<Rightarrow> string \<Rightarrow> string \<Rightarrow> error + system" where
  "appendFileSync S p data =
     (if p = [] then Inl ENOENT
      else let k = canon (cwd S) p in
        if k = [] then Inl EISDIR
        else case lookup S (butlast k) of
          None \<Rightarrow> Inl ENOENT
        | Some (File c) \<Rightarrow> Inl ENOTDIR
        | Some Dir \<Rightarrow>
            (case lookup S k of
               Some Dir \<Rightarrow> Inl EISDIR
             | Some (File c) \<Rightarrow>
                 if trailingSep p then Inl ENOTDIR else Inr (fs_put S k (File (c @ data)))
             | None \<Rightarrow>
                 if trailingSep p then Inl EISDIR else Inr (fs_put S k (File data))))"

definition createFileOrFolder :: "system \<Rightarrow> string \<Rightarrow> error + system" where
  "createFileOrFolder S absolutePath =
     (let directoryToFile = dirname absolutePath
      in if \<not> existsSync S absolutePath then
           (if isFolderDescriptor absolutePath then mkdirp_sync S absolutePath
            else case mkdirp_sync S directoryToFile of
              Inl e \<Rightarrow> Inl e
            | Inr S1 \<Rightarrow> appendFileSync S1 absolutePath [])
         else Inr S)"

text \<open>
  \<^verbatim>\<open>showInputBox(baseDirectory)\<close>: the typed string joined to the base directory. A
  dismissed input box gives \<^verbatim>\<open>undefined\<close>, \<^verbatim>\<open>path.join\<close> throws on it, and the catch
  returns nothing.
\<close>

definition showInputBox :: "DirectoryOption \<Rightarrow> string option \<Rightarrow> string option" where
  "showInputBox baseDirectory input =
     (case input of
        None \<Rightarrow> None
      | Some i \<Rightarrow> Some (join (absolute (fsLocation baseDirectory)) i))"

section \<open>Enumerating the directories of a root\<close>

text \<open>
  Two packages decide what the enumeration lists, and neither is part of the extension:
  \<^verbatim>\<open>gitignore-to-glob\<close> turns the text of an ignore file into glob patterns, and
  \<^verbatim>\<open>glob\<close> matches patterns against paths. Both are parameters here: \<open>minimatch P g f\<close>
  says whether the pattern \<open>g\<close> matches the path \<open>f\<close>, and \<open>gitignoreToGlob P text\<close> is
  the list of patterns for the lines of \<open>text\<close>. A third parameter stands for the
  regular expression engine: \<open>replaceRootRegExp P root path\<close> is
  \<^verbatim>\<open>path.replace(new RegExp(`^${root}`), "")\<close>, which throws when \<^verbatim>\<open>root\<close> is not a
  regular expression.
\<close>

record platform =
  minimatch :: "string \<Rightarrow> string \<Rightarrow> bool"
  gitignoreToGlob :: "string \<Rightarrow> string list"
  replaceRootRegExp :: "string \<Rightarrow> string \<Rightarrow> error + string"

text \<open>The settings the extension reads; an object is a list of keys and values.\<close>

record settings =
  exclude :: "(string \<times> jsval) list option"
  files_exclude :: "string \<Rightarrow> (string \<times> jsval) list"
  convenienceOptionNames :: "string list"
  showInformationMessages :: bool

text \<open>\<^verbatim>\<open>pattern.replace(/^!/, "")\<close>: one leading exclamation mark is removed.\<close>

definition invertGlob :: "string \<Rightarrow> string" where
  "invertGlob pattern = (case pattern of [] \<Rightarrow> [] | c # r \<Rightarrow> if c = CHR ''!'' then r else pattern)"

text \<open>\<^verbatim>\<open>gitignoreToGlob(file)\<close> reads the file; reading a directory or a missing file throws.\<close>

definition gitignoreToGlob_file :: "platform \<Rightarrow> system \<Rightarrow> string \<Rightarrow> error + string list" where
  "gitignoreToGlob_file P S g =
     (case stat S g of
        Some (File text) \<Rightarrow> Inr (gitignoreToGlob P text)
      | Some Dir \<Rightarrow> Inl EISDIR
      | None \<Rightarrow> Inl ENOENT)"

text \<open>\<^verbatim>\<open>xs.map(f).reduce(flatten, [])\<close> where \<^verbatim>\<open>f\<close> may throw: the first error wins.\<close>

fun flatten_results :: "(error + 'a list) list \<Rightarrow> error + 'a list" where
  "flatten_results [] = Inr []"
| "flatten_results (Inl e # rs) = Inl e"
| "flatten_results (Inr xs # rs) =
     (case flatten_results rs of Inl e \<Rightarrow> Inl e | Inr ys \<Rightarrow> Inr (xs @ ys))"

definition gitignoreGlobs :: "platform \<Rightarrow> system \<Rightarrow> string \<Rightarrow> error + string list" where
  "gitignoreGlobs P S root =
     (let gitignoreFiles = walkupGitignores S root []
      in flatten_results (map (gitignoreToGlob_file P S) gitignoreFiles))"

text \<open>
  \<^verbatim>\<open>Object.assign\<close> on objects as key-value lists: a key that is already there keeps its
  place and takes the new value, a new key goes to the end.
\<close>

fun obj_set :: "string \<Rightarrow> 'v \<Rightarrow> (string \<times> 'v) list \<Rightarrow> (string \<times> 'v) list" where
  "obj_set k v [] = [(k, v)]"
| "obj_set k v ((k', v') # r) = (if k' = k then (k, v) # r else (k', v') # obj_set k v r)"

definition obj_assign :: "(string \<times> 'v) list \<Rightarrow> (string \<times> 'v) list \<Rightarrow> (string \<times> 'v) list" where
  "obj_assign target source = foldl (\<lambda>t kv. obj_set (fst kv) (snd kv) t) target source"

text \<open>\<^verbatim>\<open>lines.join("\\n")\<close>.\<close>

fun join_lines :: "string list \<Rightarrow> string" where
  "join_lines [] = []"
| "join_lines [l] = l"
| "join_lines (l # m # ls) = l @ CHR 0x0A # join_lines (m # ls)"

definition configIgnoredGlobs :: "platform \<Rightarrow> settings \<Rightarrow> string \<Rightarrow> string list" where
  "configIgnoredGlobs P cfg root =
     (let configFilesExclude =
            obj_assign (obj_assign [] (case exclude cfg of None \<Rightarrow> [] | Some e \<Rightarrow> e))
              (files_exclude cfg root);
          configIgnored = map fst (filter (\<lambda>kv. snd kv = JBool True) configFilesExclude)
      in gitignoreToGlob P (join_lines configIgnored))"

text \<open>
  \<^verbatim>\<open>globSync("**", {cwd, ignore})\<close>: the paths of everything below \<^verbatim>\<open>cwd\<close>, relative to
  it, without the entries that have a segment starting with a dot (the package's default
  for \<^verbatim>\<open>**\<close>) and without the entries that an ignore pattern matches.
\<close>

definition hidden :: "string list \<Rightarrow> bool" where
  "hidden segs = list_ex (\<lambda>s. s \<noteq> [] \<and> hd s = CHR ''.'') segs"

definition glob_entries :: "system \<Rightarrow> string \<Rightarrow> string list" where
  "glob_entries S root =
     (let rk = canon (cwd S) root
      in map (\<lambda>k. join_sep (drop (length rk) k))
           (filter (\<lambda>k. length rk < length k \<and> take (length rk) k = rk
                         \<and> \<not> hidden (drop (length rk) k))
              (remdups (map fst (fs S)))))"

definition globSync :: "platform \<Rightarrow> system \<Rightarrow> string \<Rightarrow> string list \<Rightarrow> string list" where
  "globSync P S root ignore =
     filter (\<lambda>f. \<not> list_ex (\<lambda>g. minimatch P g f) ignore) (glob_entries S root)"

definition directoriesSync ::
  "platform \<Rightarrow> settings \<Rightarrow> system \<Rightarrow> string \<Rightarrow> error + FSLocation list" where
  "directoriesSync P cfg S root =
     (case gitignoreGlobs P S root of
        Inl e \<Rightarrow> Inl e
      | Inr globs \<Rightarrow>
          let ignore = map invertGlob (globs @ configIgnoredGlobs P cfg root);
              results =
                filter (\<lambda>f. isDirectory S (absolute f))
                  (map (\<lambda>f. \<lparr>relative = join sep f, absolute = join root f\<rparr>)
                     (globSync P S root ignore))
          in Inr results)"

text \<open>
  A platform for the examples. Its matcher compares literally (right for patterns
  without wildcards). Its converter does what \<^verbatim>\<open>gitignore-to-glob\<close> documents: empty
  lines and comments are dropped, the negation mark of every other line is swapped (an
  ignoring line gets one, a negated line loses it), and each pattern comes with the
  pattern for what is below it. Its regular expressions read a root path literally.
\<close>

fun split_lines :: "string \<Rightarrow> string list" where
  "split_lines [] = [[]]"
| "split_lines (c # cs) =
     (if c = CHR 0x0A then [] # split_lines cs
      else (case split_lines cs of [] \<Rightarrow> [[c]] | s # ss \<Rightarrow> (c # s) # ss))"

definition swap_negation :: "string \<Rightarrow> string list" where
  "swap_negation l =
     (let g = (case l of [] \<Rightarrow> [] | c # r \<Rightarrow> if c = CHR ''!'' then r else CHR ''!'' # l)
      in [g, g @ ''/**''])"

definition platform0 :: platform where
  "platform0 =
     \<lparr>minimatch = (\<lambda>g f. g = f),
      gitignoreToGlob = (\<lambda>text.
        concat (map swap_negation
          (filter (\<lambda>l. l \<noteq> [] \<and> hd l \<noteq> CHR ''#'') (split_lines text)))),
      replaceRootRegExp = (\<lambda>root path.
        Inr (if take (length root) path = root then drop (length root) path else path))\<rparr>"

definition settings0 :: settings where
  "settings0 =
     \<lparr>exclude = Some [(''node_modules'', JBool True), (''dist'', JBool False)],
      files_exclude = (\<lambda>root. [(''dist'', JBool True)]),
      convenienceOptionNames = [''last'', ''current'', ''root''],
      showInformationMessages = True\<rparr>"

text \<open>A workspace \<^verbatim>\<open>/w\<close> whose ignore file ignores \<^verbatim>\<open>out\<close> and negates \<^verbatim>\<open>keep\<close>.\<close>

definition ignore_text :: string where
  "ignore_text = ''out'' @ [CHR 0x0A] @ ''!keep''"

definition sys1 :: system where
  "sys1 = \<lparr>cwd = ''home/u'',
           fs = [([''w''], Dir), ([''w'', ''keep''], Dir), ([''w'', ''out''], Dir),
                 ([''w'', ''src''], Dir), ([''w'', ''src'', ''main.ts''], File ''let x = 1;''),
                 ([''w'', ''node_modules''], Dir), ([''w'', ''dist''], Dir),
                 ([''w'', ''.gitignore''], File ignore_text)]\<rparr>"

section \<open>The command\<close>

text \<open>
  The editor as the command sees it: the open documents (their text, by file name), the
  active editor with its selection (start and end offsets in the text), the workspace's
  folders, the extension's stored state (one cache per name), the messages shown so
  far, and the settings. The answers of the user are data too: which item of each pick
  list is chosen (none when the list is dismissed), and what is typed into the input box.
\<close>

datatype message = ErrorMessage string | InformationMessage string

record TextEditor =
  fileName :: string
  selection :: "nat \<times> nat"

record QuickPickItem =
  label :: string
  description :: "string option"
  option :: "DirectoryOption option"
  uri :: "string option"

record host =
  os :: system
  documents :: "(string \<times> string) list"
  activeTextEditor :: "TextEditor option"
  workspaceFolders :: "string list option"
  workspace_rootPath :: "string option"
  globalState :: "string \<Rightarrow> cache"
  messages :: "message list"
  configuration :: settings

record user =
  dirPick :: "nat option"
  filePick :: "nat option"
  typed :: "string option"

datatype outcome = Returned | Threw error

subsection \<open>Documents and edits\<close>

definition getText :: "string \<Rightarrow> nat \<times> nat \<Rightarrow> string" where
  "getText t sel = take (snd sel - fst sel) (drop (fst sel) t)"

definition delete_range :: "string \<Rightarrow> nat \<times> nat \<Rightarrow> string" where
  "delete_range t sel = take (fst sel) t @ drop (max (fst sel) (snd sel)) t"

definition insert_at :: "string \<Rightarrow> nat \<Rightarrow> string \<Rightarrow> string" where
  "insert_at t off s = take off t @ s @ drop off t"

text \<open>\<^verbatim>\<open>document.lineCount\<close>, and the offset of \<^verbatim>\<open>document.lineAt(n).range.end\<close>.\<close>

definition lineCount :: "string \<Rightarrow> nat" where
  "lineCount t = length (split_lines t)"

definition line_end :: "string \<Rightarrow> nat \<Rightarrow> nat" where
  "line_end t n = length (join_lines (take (Suc n) (split_lines t)))"

definition document_text :: "host \<Rightarrow> string \<Rightarrow> string" where
  "document_text w name = (case map_of (documents w) name of None \<Rightarrow> [] | Some t \<Rightarrow> t)"

definition set_document :: "host \<Rightarrow> string \<Rightarrow> string \<Rightarrow> host" where
  "set_document w name t =
     w\<lparr>documents := (name, t) # filter (\<lambda>kv. fst kv \<noteq> name) (documents w)\<rparr>"

text \<open>\<^verbatim>\<open>editor.edit(b => b.delete(selection))\<close> on the editor's document.\<close>

definition edit_delete :: "host \<Rightarrow> TextEditor \<Rightarrow> nat \<times> nat \<Rightarrow> host" where
  "edit_delete w editor sel =
     set_document w (fileName editor) (delete_range (document_text w (fileName editor)) sel)"

text \<open>
  \<^verbatim>\<open>openTextDocument\<close> returns the document when it is open and reads the file
  otherwise; \<^verbatim>\<open>showTextDocument\<close> makes an editor on it the active one;
  \<^verbatim>\<open>document.save()\<close> writes the text to the file.
\<close>

definition openTextDocument :: "host \<Rightarrow> string \<Rightarrow> error + host" where
  "openTextDocument w path =
     (if map_of (documents w) path \<noteq> None then Inr w
      else case stat (os w) path of
        Some (File t) \<Rightarrow> Inr (set_document w path t)
      | Some Dir \<Rightarrow> Inl EISDIR
      | None \<Rightarrow> Inl ENOENT)"

definition showTextDocument :: "host \<Rightarrow> string \<Rightarrow> host" where
  "showTextDocument w path = w\<lparr>activeTextEditor := Some \<lparr>fileName = path, selection = (0, 0)\<rparr>\<rparr>"

definition save :: "host \<Rightarrow> string \<Rightarrow> host" where
  "save w path =
     w\<lparr>os := fs_put (os w) (canon (cwd (os w)) path) (File (document_text w path))\<rparr>"

definition showErrorMessage :: "host \<Rightarrow> string \<Rightarrow> host" where
  "showErrorMessage w m = w\<lparr>messages := messages w @ [ErrorMessage m]\<rparr>"

definition showInformationMessage :: "host \<Rightarrow> string \<Rightarrow> host" where
  "showInformationMessage w m = w\<lparr>messages := messages w @ [InformationMessage m]\<rparr>"

text \<open>What the user picks from a list: the item at the chosen index, if there is one.\<close>

definition pick :: "nat option \<Rightarrow> 'a list \<Rightarrow> 'a option" where
  "pick i xs = (case i of None \<Rightarrow> None | Some n \<Rightarrow> if n < length xs then Some (xs ! n) else None)"

subsection \<open>The pick list of directories\<close>

definition workspaceRoots :: "host \<Rightarrow> WorkspaceRoot list" where
  "workspaceRoots w =
     (case workspaceFolders w of
        Some folders \<Rightarrow>
          map (\<lambda>p. \<lparr>rootPath = p, baseName = basename p, multi = (length folders > 1)\<rparr>) folders
      | None \<Rightarrow>
          (case workspace_rootPath w of
             None \<Rightarrow> []
           | Some p \<Rightarrow>
               if p = [] then [] else [\<lparr>rootPath = p, baseName = basename p, multi = False\<rparr>]))"

definition subdirOptionsForRoot ::
  "platform \<Rightarrow> settings \<Rightarrow> system \<Rightarrow> WorkspaceRoot \<Rightarrow> error + DirectoryOption list" where
  "subdirOptionsForRoot P cfg S root =
     (case directoriesSync P cfg S (rootPath root) of
        Inl e \<Rightarrow> Inl e
      | Inr dirs \<Rightarrow>
          Inr (map (\<lambda>dir.
                 \<lparr>displayText = (if multi root then join3 sep (baseName root) (relative dir)
                                  else relative dir),
                  fsLocation = dir\<rparr>) dirs))"

definition buildQuickPickItem :: "DirectoryOption option \<Rightarrow> string option \<Rightarrow> QuickPickItem option" where
  "buildQuickPickItem opt descr =
     (case opt of
        None \<Rightarrow> None
      | Some d \<Rightarrow> Some \<lparr>label = displayText d, description = descr, option = Some d, uri = None\<rparr>)"

definition currentEditorPath :: "host \<Rightarrow> string option" where
  "currentEditorPath w =
     (case activeTextEditor w of None \<Rightarrow> None | Some activeEditor \<Rightarrow> Some (dirname (fileName activeEditor)))"

definition rootOptions :: "WorkspaceRoot list \<Rightarrow> DirectoryOption list" where
  "rootOptions roots =
     map (\<lambda>root.
       \<lparr>displayText = (if multi root then join sep (baseName root) else sep),
        fsLocation = \<lparr>relative = sep, absolute = rootPath root\<rparr>\<rparr>) roots"

definition currentEditorPathOption ::
  "platform \<Rightarrow> host \<Rightarrow> WorkspaceRoot list \<Rightarrow> error + DirectoryOption option" where
  "currentEditorPathOption P w roots =
     (case currentEditorPath w of
        None \<Rightarrow> Inr None
      | Some currentFilePath \<Rightarrow>
          (case List.find (\<lambda>r. startsWith currentFilePath (rootPath r)) roots of
             None \<Rightarrow> Inr None
           | Some currentFileRoot \<Rightarrow>
               (case replaceRootRegExp P (rootPath currentFileRoot) currentFilePath of
                  Inl e \<Rightarrow> Inl e
                | Inr replaced \<Rightarrow>
                    let relativeCurrentFilePath = (if replaced = [] then sep else replaced);
                        displayText =
                          (if multi currentFileRoot
                           then join3 sep (baseName currentFileRoot) relativeCurrentFilePath
                           else relativeCurrentFilePath)
                    in Inr (Some \<lparr>displayText = displayText,
                                   fsLocation = \<lparr>relative = relativeCurrentFilePath,
                                                 absolute = currentFilePath\<rparr>\<rparr>))))"

text \<open>
  \<^verbatim>\<open>value as DirectoryOption\<close>: the cache holds a \<^verbatim>\<open>DirectoryOption\<close> under
  \<^verbatim>\<open>"last"\<close> whenever the extension wrote it; \<^verbatim>\<open>null\<close> is falsy and gives no item, and
  an array stored there by other means is read as no option either.
\<close>

definition asDirectoryOption :: "jsval option \<Rightarrow> DirectoryOption option" where
  "asDirectoryOption v = (case v of Some (JObject d) \<Rightarrow> Some d | _ \<Rightarrow> None)"

text \<open>
  \<^verbatim>\<open>lists.reduce(flatten)\<close> with no initial value, on lists of which some may be
  \<^verbatim>\<open>undefined\<close> (an unknown option name): it throws on no list at all and on an
  \<^verbatim>\<open>undefined\<close> first list that is followed by another; \<^verbatim>\<open>concat\<close> appends an
  \<^verbatim>\<open>undefined\<close> list as one \<^verbatim>\<open>undefined\<close> element.
\<close>

definition reduce_flatten :: "'a option list option list \<Rightarrow> error + 'a option list" where
  "reduce_flatten arrays =
     (case arrays of
        [] \<Rightarrow> Inl TypeError
      | [x] \<Rightarrow> Inr (case x of None \<Rightarrow> [] | Some l \<Rightarrow> l)
      | x # y # rest \<Rightarrow>
          (case x of
             None \<Rightarrow> Inl TypeError
           | Some l \<Rightarrow>
               Inr (foldl (\<lambda>memo item. memo @ (case item of None \<Rightarrow> [None] | Some xs \<Rightarrow> xs))
                      l (y # rest))))"

definition compact :: "'a option list \<Rightarrow> 'a list" where
  "compact xs = List.map_filter (\<lambda>x. x) xs"

definition convenienceOptions ::
  "platform \<Rightarrow> host \<Rightarrow> WorkspaceRoot list \<Rightarrow> cache \<Rightarrow> (error + QuickPickItem list) \<times> cache" where
  "convenienceOptions P w roots c =
     (let config = convenienceOptionNames (configuration w);
          (lastValue, c1) = lastSelection c;
          lastItems = [buildQuickPickItem (asDirectoryOption lastValue) (Some ''- last selection'')]
      in case currentEditorPathOption P w roots of
           Inl e \<Rightarrow> (Inl e, c1)
         | Inr current \<Rightarrow>
             let currentItems = [buildQuickPickItem current (Some ''- current file'')];
                 rootItems = map (\<lambda>opt. buildQuickPickItem (Some opt) (Some ''- workspace root''))
                               (rootOptions roots);
                 optionsByName = (\<lambda>name.
                   if name = ''last'' then Some lastItems
                   else if name = ''current'' then Some currentItems
                   else if name = ''root'' then Some rootItems
                   else None)
             in case reduce_flatten (map optionsByName config) of
                  Inl e \<Rightarrow> (Inl e, c1)
                | Inr options \<Rightarrow> (Inr (compact options), c1))"

definition dirQuickPickItems ::
  "platform \<Rightarrow> host \<Rightarrow> WorkspaceRoot list \<Rightarrow> cache \<Rightarrow> (error + QuickPickItem list) \<times> cache" where
  "dirQuickPickItems P w roots c =
     (case flatten_results (map (subdirOptionsForRoot P (configuration w) (os w)) roots) of
        Inl e \<Rightarrow> (Inl e, c)
      | Inr dirOptions \<Rightarrow>
          if roots = [] then (Inl TypeError, c)
          else let quickPickItems = List.map_filter (\<lambda>opt. buildQuickPickItem (Some opt) None) dirOptions
               in case convenienceOptions P w roots c of
                    (Inl e, c1) \<Rightarrow> (Inl e, c1)
                  | (Inr conv, c1) \<Rightarrow> (Inr (conv @ quickPickItems), c1))"

subsection \<open>Moving the selection\<close>

text \<open>
  \<^verbatim>\<open>workspace.findFiles(new RelativePattern(dir, "*"))\<close>: the files that are directly in
  the directory.
\<close>

definition findFiles :: "system \<Rightarrow> string \<Rightarrow> string list" where
  "findFiles S dir =
     map of_segs
       (filter (\<lambda>k. k \<noteq> [] \<and> butlast k = canon (cwd S) dir \<and> is_file (lookup S k))
          (remdups (map fst (fs S))))"

text \<open>\<^verbatim>\<open>fsPath.slice(fsPath.lastIndexOf(path.sep) + 1)\<close>: what follows the last separator.\<close>

definition after_last_sep :: "string \<Rightarrow> string" where
  "after_last_sep p = last (split_sep p)"

definition openFile :: "host \<Rightarrow> string \<Rightarrow> error + host" where
  "openFile w absolutePath =
     (if isFolderDescriptor absolutePath then
        Inr (if showInformationMessages (configuration w)
             then showInformationMessage w (''Folder created: '' @ absolutePath) else w)
      else case openTextDocument w absolutePath of
        Inl e \<Rightarrow> Inl e
      | Inr w1 \<Rightarrow> Inr (showTextDocument w1 absolutePath))"

text \<open>The second pick list: the files of the directory, then "Create new file".\<close>

definition fileChoices :: "string list \<Rightarrow> QuickPickItem list" where
  "fileChoices localFiles =
     map (\<lambda>file. \<lparr>label = after_last_sep file, description = None, option = None,
                    uri = Some file\<rparr>) localFiles
     @ [\<lparr>label = ''Create new file'', description = None, option = None, uri = None\<rparr>]"

text \<open>The branch of the command for an existing file (\<^verbatim>\<open>choice.uri\<close> is set).\<close>

definition moveToExistingFile ::
  "host \<Rightarrow> TextEditor \<Rightarrow> nat \<times> nat \<Rightarrow> string \<Rightarrow> string \<Rightarrow> outcome \<times> host" where
  "moveToExistingFile w editor sel selectionText fileUri =
     (let w1 = edit_delete w editor sel
      in case openTextDocument w1 fileUri of
           Inl e \<Rightarrow> (Threw e, w1)
         | Inr w2 \<Rightarrow>
             let w3 = showTextDocument w2 fileUri;
                 document = document_text w3 fileUri;
                 w4 = set_document w3 fileUri
                        (insert_at document (line_end document (lineCount document - 1))
                           (CHR 0x0A # selectionText));
                 w5 = save w4 fileUri
             in (Returned, w5))"

text \<open>The branch of the command for "Create new file".\<close>

definition moveToNewFile ::
  "user \<Rightarrow> host \<Rightarrow> TextEditor \<Rightarrow> nat \<times> nat \<Rightarrow> string \<Rightarrow> DirectoryOption \<Rightarrow> outcome \<times> host" where
  "moveToNewFile U w editor sel selectionText dir =
     (case showInputBox dir (typed U) of
        None \<Rightarrow> (Returned, w)
      | Some newFileInput \<Rightarrow>
          if newFileInput = [] then (Returned, w)
          else case createFileOrFolder (os w) newFileInput of
            Inl e \<Rightarrow> (Threw e, w)
          | Inr S1 \<Rightarrow>
              let w1 = edit_delete (w\<lparr>os := S1\<rparr>) editor sel
              in case openFile w1 newFileInput of
                   Inl e \<Rightarrow> (Threw e, w1)
                 | Inr w2 \<Rightarrow>
                     (case activeTextEditor w2 of
                        None \<Rightarrow> (Threw TypeError, w2)
                      | Some activeEditor \<Rightarrow>
                          let name = fileName activeEditor;
                              w3 = set_document w2 name
                                     (insert_at (document_text w2 name) 0 selectionText);
                              w4 = save w3 name;
                              w5 = w4\<lparr>activeTextEditor :=
                                         Some (activeEditor\<lparr>selection := (0, 0)\<rparr>)\<rparr>
                          in (Returned, w5)))"

text \<open>\<^verbatim>\<open>roots.map(r => r.rootPath).join(";")\<close>.\<close>

fun join_semicolon :: "string list \<Rightarrow> string" where
  "join_semicolon [] = []"
| "join_semicolon [s] = s"
| "join_semicolon (s # t # ss) = s @ CHR '';'' # join_semicolon (t # ss)"

text \<open>The name of the cache: \<^verbatim>\<open>`workspace:${cacheName}`\<close>.\<close>

definition cacheNamespace :: "string \<Rightarrow> string" where
  "cacheNamespace cacheName = ''workspace:'' @ cacheName"

definition command :: "platform \<Rightarrow> user \<Rightarrow> host \<Rightarrow> outcome \<times> host" where
  "command P U w =
     (case activeTextEditor w of
        None \<Rightarrow> (Returned, w)
      | Some editor \<Rightarrow>
          let sel = selection editor;
              selectionText = getText (document_text w (fileName editor)) sel
          in if length selectionText = 0
             then (Returned, showErrorMessage w ''There isn't any text selected.'')
             else
               let roots = workspaceRoots w
               in if length roots > 0 then
                    let cacheName = join_semicolon (map rootPath roots);
                        name = cacheNamespace cacheName;
                        c = globalState w name;
                        sortedRoots = sortRoots roots (recentRootsOf c)
                    in case dirQuickPickItems P w sortedRoots c of
                         (Inl e, c1) \<Rightarrow> (Threw e, w\<lparr>globalState := (globalState w)(name := c1)\<rparr>)
                       | (Inr items, c1) \<Rightarrow>
                           let w1 = w\<lparr>globalState := (globalState w)(name := c1)\<rparr>
                           in (case pick (dirPick U) items of
                                 None \<Rightarrow> (Returned, w1)
                               | Some dirSelection \<Rightarrow>
                                   (case option dirSelection of
                                      None \<Rightarrow> (Threw TypeError, w1)
                                    | Some dir \<Rightarrow>
                                        (case rootForDir roots dir of
                                           None \<Rightarrow>
                                             (Threw TypeError,
                                              w1\<lparr>globalState := (globalState w1)
                                                    (name := cache_put c1 ''last'' (JObject dir))\<rparr>)
                                         | Some selectedRoot \<Rightarrow>
                                             let w2 = w1\<lparr>globalState := (globalState w1)
                                                          (name := cacheSelection c1 dir selectedRoot)\<rparr>;
                                                 localFiles = findFiles (os w2) (absolute (fsLocation dir));
                                                 choices = fileChoices localFiles
                                             in (case pick (filePick U) choices of
                                                   None \<Rightarrow> (Returned, w2)
                                                 | Some choice \<Rightarrow>
                                                     (case uri choice of
                                                        Some fileUri \<Rightarrow>
                                                          moveToExistingFile w2 editor sel selectionText fileUri
                                                      | None \<Rightarrow>
                                                          moveToNewFile U w2 editor sel selectionText dir)))))
                  else
                    (Returned,
                     showErrorMessage w
                       (''It doesn't look like you have a folder opened in your workspace. ''
                        @ ''Try opening a folder first.'')))"

text \<open>
  An editor on \<^verbatim>\<open>/w/src/main.ts\<close> with its second line selected, in the workspace \<^verbatim>\<open>/w\<close>.
  The user picks the directory \<^verbatim>\<open>/src\<close> from the list and then an item of the file list.
\<close>

definition sys2 :: system where
  "sys2 = \<lparr>cwd = ''home/u'',
           fs = [([''w''], Dir), ([''w'', ''src''], Dir),
                 ([''w'', ''src'', ''main.ts''], File ''let x = 1;''),
                 ([''w'', ''src'', ''util.ts''], File ''export {};'')]\<rparr>"

definition main_text :: string where
  "main_text = ''let x = 1;'' @ [CHR 0x0A] @ ''let y = 2;''"

definition host0 :: host where
  "host0 =
     \<lparr>os = sys2,
      documents = [(''/w/src/main.ts'', main_text)],
      activeTextEditor = Some \<lparr>fileName = ''/w/src/main.ts'', selection = (11, 21)\<rparr>,
      workspaceFolders = Some [''/w''],
      workspace_rootPath = Some ''/w'',
      globalState = (\<lambda>name. Map.empty),
      messages = [],
      configuration = settings0\<rparr>"

definition user0 :: user where
  "user0 = \<lparr>dirPick = Some 2, filePick = Some 1, typed = None\<rparr>"

text \<open>The text of the target when the insertion is made: the open document, or the file.\<close>

definition target_text :: "host \<Rightarrow> string \<Rightarrow> string" where
  "target_text w path =
     (case map_of (documents w) path of
        Some t \<Rightarrow> t
      | None \<Rightarrow> (case stat (os w) path of Some (File t) \<Rightarrow> t | _ \<Rightarrow> []))"

definition can_open :: "host \<Rightarrow> string \<Rightarrow> bool" where
  "can_open w path = (map_of (documents w) path \<noteq> None \<or> is_file (stat (os w) path))"

text \<open>The three precondition failures, as variations of the example.\<close>

definition host_no_editor :: host where
  "host_no_editor = host0\<lparr>activeTextEditor := None\<rparr>"

definition host_no_selection :: host where
  "host_no_selection =
     host0\<lparr>activeTextEditor := Some \<lparr>fileName = ''/w/src/main.ts'', selection = (3, 3)\<rparr>\<rparr>"

definition host_no_folder :: host where
  "host_no_folder = host0\<lparr>workspaceFolders := None, workspace_rootPath := None\<rparr>"

section \<open>Facts about the walk\<close>

lemma of_segs_inj: "clean xs \<Longrightarrow> clean ys \<Longrightarrow> of_segs xs = of_segs ys \<Longrightarrow> xs = ys"
  by (metis canon_of_segs)

lemma of_segs_root_iff: "clean xs \<Longrightarrow> of_segs xs = ''/'' \<longleftrightarrow> xs = []"
proof
  assume "clean xs" and "of_segs xs = ''/''"
  then have "of_segs xs = of_segs []" by (simp add: of_segs_def)
  with \<open>clean xs\<close> show "xs = []"
    using of_segs_inj [of xs "[]"] by (simp add: clean_def)
qed (simp add: of_segs_def)

lemma ancestors_length: "length (ancestors B) = Suc (length B)"
  by (simp add: ancestors_def)

lemma ancestors_nth: "j \<le> length B \<Longrightarrow> ancestors B ! j = of_segs (take (length B - j) B)"
  by (simp add: ancestors_def rev_nth del: upt_Suc)

lemma ancestors_snoc: "ancestors (B @ [b]) = of_segs (B @ [b]) # ancestors B"
  by (simp add: ancestors_def)

lemma ancestors_nonempty: "ancestors B \<noteq> []"
  by (simp add: ancestors_def)

lemma ancestors_last: "last (ancestors B) = ''/''"
proof -
  have "last (ancestors B) = ancestors B ! length B"
    by (simp add: last_conv_nth ancestors_length ancestors_nonempty)
  then show ?thesis by (simp add: ancestors_nth of_segs_def)
qed

lemma ancestors_butlast_no_root:
  assumes "clean B"
  shows "''/'' \<notin> set (butlast (ancestors B))"
proof
  assume "''/'' \<in> set (butlast (ancestors B))"
  then obtain j where j: "j < length (butlast (ancestors B))" and e: "butlast (ancestors B) ! j = ''/''"
    by (auto simp: in_set_conv_nth)
  from j have jl: "j < length B" by (simp add: ancestors_length)
  then have "ancestors B ! j = of_segs (take (length B - j) B)"
    by (simp add: ancestors_nth)
  with e j have "of_segs (take (length B - j) B) = ''/''"
    by (simp add: nth_butlast)
  then have "take (length B - j) B = []"
    using of_segs_root_iff [OF clean_take [OF assms]] by simp
  with jl show False by simp
qed

lemma ancestors_step:
  assumes "clean B" and "Suc j \<le> length B"
  shows "ancestors B ! Suc j = resolve below (ancestors B ! j) ''..''"
proof -
  let ?X = "take (length B - j) B"
  have cX: "clean ?X" by (rule clean_take [OF assms(1)])
  have "butlast ?X = take (length B - Suc j) B"
    using assms(2) by (simp add: butlast_take)
  then have "resolve below (of_segs ?X) ''..'' = of_segs (take (length B - Suc j) B)"
    by (simp add: resolve_parent canon_of_segs [OF cX])
  then show ?thesis
    using assms(2) by (simp add: ancestors_nth)
qed

lemma walkup_canonical:
  "clean B \<Longrightarrow> walkupGitignores S (of_segs B) found = found @ gitignores_in S (ancestors B)"
proof (induction B arbitrary: found rule: rev_induct)
  case Nil
  have "resolve (cwd S) (of_segs []) ''..'' = of_segs []"
    by (simp add: of_segs_def resolve_root)
  then show ?case
    by (subst walkupGitignores.simps) (simp add: Let_def gitignores_in_def ancestors_def)
next
  case (snoc b B)
  then have cB: "clean B" by (simp add: clean_def)
  have par: "resolve (cwd S) (of_segs (B @ [b])) ''..'' = of_segs B"
    using snoc.prems by (simp add: resolve_parent canon_of_segs)
  have ne: "of_segs (B @ [b]) \<noteq> of_segs B"
    using of_segs_inj [OF snoc.prems cB] by auto
  have "walkupGitignores S (of_segs (B @ [b])) found
      = walkupGitignores S (of_segs B)
          (if existsSync S (join (of_segs (B @ [b])) ''.gitignore'')
           then found @ [join (of_segs (B @ [b])) ''.gitignore''] else found)"
    by (subst walkupGitignores.simps) (simp add: Let_def par ne)
  also have "\<dots> = found @ gitignores_in S (of_segs (B @ [b]) # ancestors B)"
    by (simp add: snoc.IH [OF cB] gitignores_in_def)
  finally show ?case
    unfolding ancestors_snoc .
qed

lemma walkup_closed_form:
  "walkupGitignores S dir found = found @ gitignores_in S (walkup_dirs S dir)"
proof (cases "resolve (cwd S) dir ''..'' = dir")
  case True
  then show ?thesis
    by (subst walkupGitignores.simps) (simp add: Let_def walkup_dirs_def gitignores_in_def)
next
  case False
  let ?B = "butlast (canon (cwd S) dir)"
  have cB: "clean ?B" by (simp add: clean_butlast canon_clean)
  have "walkupGitignores S dir found
      = walkupGitignores S (of_segs ?B)
          (if existsSync S (join dir ''.gitignore'')
           then found @ [join dir ''.gitignore''] else found)"
    using False by (subst walkupGitignores.simps) (simp add: Let_def resolve_parent)
  also have "\<dots> = found @ gitignores_in S (walkup_dirs S dir)"
    using False by (simp add: walkup_canonical [OF cB] walkup_dirs_def gitignores_in_def)
  finally show ?thesis .
qed

lemma walkup_dirs_last: "last (walkup_dirs S dir) = ''/''"
proof (cases "resolve (cwd S) dir ''..'' = dir")
  case True
  then have "dir = ''/''" using own_parent_iff_root [of "cwd S" dir] by simp
  with True show ?thesis by (simp add: walkup_dirs_def)
next
  case False
  then show ?thesis
    by (simp add: walkup_dirs_def ancestors_last ancestors_nonempty)
qed

lemma walkup_dirs_root_only_last: "''/'' \<notin> set (butlast (walkup_dirs S dir))"
proof (cases "resolve (cwd S) dir ''..'' = dir")
  case True
  then show ?thesis by (simp add: walkup_dirs_def)
next
  case False
  let ?B = "butlast (canon (cwd S) dir)"
  have cB: "clean ?B" by (simp add: clean_butlast canon_clean)
  have d: "dir \<noteq> ''/''" using False own_parent_iff_root [of "cwd S" dir] by auto
  have "butlast (walkup_dirs S dir) = dir # butlast (ancestors ?B)"
    using False by (simp add: walkup_dirs_def ancestors_nonempty)
  then show ?thesis
    using d ancestors_butlast_no_root [OF cB] by simp
qed

lemma walkup_dirs_step:
  assumes "Suc i < length (walkup_dirs S dir)"
  shows "walkup_dirs S dir ! Suc i = resolve (cwd S) (walkup_dirs S dir ! i) ''..''"
proof (cases "resolve (cwd S) dir ''..'' = dir")
  case True
  then show ?thesis using assms by (simp add: walkup_dirs_def)
next
  case False
  let ?B = "butlast (canon (cwd S) dir)"
  have cB: "clean ?B" by (simp add: clean_butlast canon_clean)
  have w: "walkup_dirs S dir = dir # ancestors ?B"
    using False by (simp add: walkup_dirs_def)
  from assms have i: "i \<le> length ?B"
    unfolding w by (simp add: ancestors_length)
  show ?thesis
  proof (cases i)
    case 0
    have "ancestors ?B ! 0 = of_segs ?B"
      using ancestors_nth [of 0 ?B] by simp
    then show ?thesis
      unfolding w 0 by (simp add: resolve_parent)
  next
    case (Suc j)
    then have "Suc j \<le> length ?B" using i by simp
    from ancestors_step [OF cB this, of "cwd S"] show ?thesis
      unfolding w Suc by simp
  qed
qed

text \<open>
  Claim C8. \<^verbatim>\<open>walkupGitignores\<close> is a total function (its termination is proved above,
  for every directory string and every working directory), and it returns \<^verbatim>\<open>found\<close>
  followed by the \<^verbatim>\<open>.gitignore\<close> files that exist in the directories of the walk, in the
  order of the walk. The walk starts at the directory, each next directory is
  \<^verbatim>\<open>path.resolve(d, "..")\<close> of the one before, it ends with the root \<^verbatim>\<open>/\<close>, and the root
  is nowhere else in it: a directory is its own parent exactly when it is the root.
\<close>

theorem walkupGitignores_walk:
  "walkupGitignores S dir found = found @ gitignores_in S (walkup_dirs S dir)
   \<and> last (walkup_dirs S dir) = ''/''
   \<and> ''/'' \<notin> set (butlast (walkup_dirs S dir))
   \<and> (\<forall>i. Suc i < length (walkup_dirs S dir) \<longrightarrow>
         walkup_dirs S dir ! Suc i = resolve (cwd S) (walkup_dirs S dir ! i) ''..'')
   \<and> (resolve (cwd S) d ''..'' = d \<longleftrightarrow> d = ''/'')"
  using walkup_closed_form walkup_dirs_last walkup_dirs_root_only_last walkup_dirs_step
    own_parent_iff_root by blast

lemma ev1: "walkup_dirs sys0 ''/w/p'' = [''/w/p'', ''/w'', ''/'']"
  by code_simp

lemma ev2: "gitignores_in sys0 [''/w/p'', ''/w'', ''/''] = [''/w/.gitignore'', ''/.gitignore'']"
  by code_simp

theorem walkupGitignores_walk_witness:
  "walkupGitignores sys0 ''/w/p'' [] = [''/w/.gitignore'', ''/.gitignore'']
   \<and> walkup_dirs sys0 ''/w/p'' = [''/w/p'', ''/w'', ''/'']
   \<and> walkup_dirs sys0 ''/w/p'' ! 1 = resolve (cwd sys0) (walkup_dirs sys0 ''/w/p'' ! 0) ''..''"
proof -
  have len: "Suc 0 < length (walkup_dirs sys0 ''/w/p'')" by (simp add: ev1)
  from walkupGitignores_walk [of sys0 "''/w/p''" "[]" "''/''"] len
  have "walkupGitignores sys0 ''/w/p'' [] = gitignores_in sys0 (walkup_dirs sys0 ''/w/p'')"
    and "walkup_dirs sys0 ''/w/p'' ! Suc 0
           = resolve (cwd sys0) (walkup_dirs sys0 ''/w/p'' ! 0) ''..''"
    by simp_all
  then show ?thesis by (simp add: ev1 ev2)
qed

section \<open>Facts about the cache and the roots\<close>

lemma indexOf_ge: "- 1 \<le> indexOf xs x"
  by (induction xs) (auto simp: Let_def)

lemma indexOf_neg_iff: "indexOf xs x < 0 \<longleftrightarrow> x \<notin> set xs"
proof (induction xs)
  case Nil
  then show ?case by simp
next
  case (Cons y ys)
  then show ?case using indexOf_ge [of ys x] by (auto simp: Let_def)
qed

lemma indexOf_absent: "x \<notin> set xs \<Longrightarrow> indexOf xs x = - 1"
  using indexOf_ge [of xs x] indexOf_neg_iff [of xs x] by simp

lemma indexOf_present:
  "x \<in> set xs \<Longrightarrow> 0 \<le> indexOf xs x \<and> nat (indexOf xs x) < length xs \<and> xs ! nat (indexOf xs x) = x"
proof (induction xs)
  case Nil
  then show ?case by simp
next
  case (Cons y ys)
  show ?case
  proof (cases "y = x")
    case True
    then show ?thesis by simp
  next
    case False
    with Cons.prems have "x \<in> set ys" by simp
    from Cons.IH [OF this] False show ?thesis
      by (simp add: Let_def nat_add_distrib)
  qed
qed

lemma indexOf_zero_iff: "indexOf xs x = 0 \<longleftrightarrow> (xs \<noteq> [] \<and> hd xs = x)"
proof (cases xs)
  case Nil
  then show ?thesis by simp
next
  case (Cons y ys)
  then show ?thesis using indexOf_ge [of ys x] by (auto simp: Let_def)
qed

lemma indexOf_first: "i < length xs \<Longrightarrow> xs ! i = x \<Longrightarrow> indexOf xs x \<le> int i"
proof (induction xs arbitrary: i)
  case Nil
  then show ?case by simp
next
  case (Cons y ys)
  show ?case
  proof (cases i)
    case 0
    with Cons.prems show ?thesis by simp
  next
    case (Suc j)
    with Cons.prems have "indexOf ys x \<le> int j" by (intro Cons.IH) simp_all
    with Suc show ?thesis by (simp add: Let_def)
  qed
qed

text \<open>
  Claim C10. \<^verbatim>\<open>lastSelection\<close> has three cases. With no entry under \<^verbatim>\<open>"last"\<close> it returns
  nothing and leaves the cache as it is. With an entry whose \<^verbatim>\<open>typeof\<close> is
  \<^verbatim>\<open>"object"\<close> it returns that entry and leaves the cache as it is. With an entry of any
  other type it returns nothing and forgets the entry. It returns a value only in the
  second case.
\<close>

theorem lastSelection_cases:
  "(c ''last'' = None \<longrightarrow> lastSelection c = (None, c))
   \<and> (c ''last'' = Some v \<and> typeof v = ''object'' \<longrightarrow> lastSelection c = (Some v, c))
   \<and> (c ''last'' = Some v \<and> typeof v \<noteq> ''object'' \<longrightarrow>
         lastSelection c = (None, c(''last'' := None)))
   \<and> (fst (lastSelection c) = Some w \<longrightarrow> c ''last'' = Some w \<and> typeof w = ''object'')"
  by (auto simp: lastSelection_def cache_has_def cache_get_def cache_forget_def Let_def
      split: option.splits)

theorem lastSelection_cases_witness:
  "lastSelection Map.empty = (None, Map.empty)
   \<and> lastSelection [''last'' \<mapsto> JObject dir0] = (Some (JObject dir0), [''last'' \<mapsto> JObject dir0])
   \<and> lastSelection [''last'' \<mapsto> JString ''/w/p'', ''recentRoots'' \<mapsto> JArray [''/w'']]
        = (None, [''recentRoots'' \<mapsto> JArray [''/w'']])"
proof -
  have a: "lastSelection Map.empty = (None, Map.empty)"
    using lastSelection_cases [of Map.empty] by simp
  have b: "lastSelection [''last'' \<mapsto> JObject dir0] = (Some (JObject dir0), [''last'' \<mapsto> JObject dir0])"
    using lastSelection_cases [of "[''last'' \<mapsto> JObject dir0]" "JObject dir0"] by simp
  have "lastSelection [''last'' \<mapsto> JString ''/w/p'', ''recentRoots'' \<mapsto> JArray [''/w'']]
      = (None, [''last'' \<mapsto> JString ''/w/p'', ''recentRoots'' \<mapsto> JArray [''/w'']](''last'' := None))"
    using lastSelection_cases [of "[''last'' \<mapsto> JString ''/w/p'', ''recentRoots'' \<mapsto> JArray [''/w'']]"
        "JString ''/w/p''"] by simp
  moreover have "[''last'' \<mapsto> JString ''/w/p'', ''recentRoots'' \<mapsto> JArray [''/w'']](''last'' := None)
      = [''recentRoots'' \<mapsto> JArray [''/w'']]"
    by (rule ext) simp
  ultimately show ?thesis using a b by simp
qed

subsection \<open>Sorting the roots by recency\<close>

lemma desiredKey_absent:
  "rootPath r \<notin> set order \<Longrightarrow> desiredKey roots order r = int (length roots)"
  by (simp add: desiredKey_def indexOf_absent)

lemma desiredKey_present:
  "rootPath r \<in> set order \<Longrightarrow> desiredKey roots order r = indexOf order (rootPath r)"
  using indexOf_present [of "rootPath r" order] by (simp add: desiredKey_def)

lemma desiredKey_nonneg: "0 \<le> desiredKey roots order r"
  by (simp add: desiredKey_def Let_def)

lemma distinct_order_index_bound:
  assumes "distinct order" and "set order \<subseteq> rootPath ` set roots" and "p \<in> set order"
  shows "indexOf order p < int (length roots)"
proof -
  have "nat (indexOf order p) < length order" and "0 \<le> indexOf order p"
    using indexOf_present [OF assms(3)] by simp_all
  moreover have "length order = card (set order)"
    using assms(1) by (simp add: distinct_card)
  moreover have "card (set order) \<le> card (rootPath ` set roots)"
    using assms(2) by (intro card_mono) simp_all
  moreover have "card (rootPath ` set roots) \<le> length roots"
    by (rule order_trans [OF card_image_le card_length]) simp
  ultimately show ?thesis by linarith
qed

text \<open>
  Claim C5, as amended. For every list of roots and every order list, \<^verbatim>\<open>sortRoots\<close>
  returns a permutation of the roots that is sorted by the key (the position of the
  root's path in the order list, or the number of roots when the path is absent) and
  keeps roots of equal key in their original order. A root absent from the order list
  never stands before a present root whose position is below the number of roots; in
  particular never before any present root when the order list is duplicate-free and
  holds only paths of the given roots.
\<close>

theorem sortRoots_stable_sort:
  "mset (sortRoots roots order) = mset roots
   \<and> sorted (map (desiredKey roots order) (sortRoots roots order))
   \<and> filter (\<lambda>r. desiredKey roots order r = k) (sortRoots roots order)
       = filter (\<lambda>r. desiredKey roots order r = k) roots
   \<and> (i < j \<and> j < length roots
        \<and> rootPath (sortRoots roots order ! j) \<in> set order
        \<and> indexOf order (rootPath (sortRoots roots order ! j)) < int (length roots)
       \<longrightarrow> rootPath (sortRoots roots order ! i) \<in> set order)
   \<and> (distinct order \<and> set order \<subseteq> rootPath ` set roots
        \<and> i < j \<and> j < length roots \<and> rootPath (sortRoots roots order ! j) \<in> set order
       \<longrightarrow> rootPath (sortRoots roots order ! i) \<in> set order)"
proof -
  let ?res = "sortRoots roots order"
  let ?key = "desiredKey roots order"
  have m: "mset ?res = mset roots"
    by (simp add: sortRoots_def sortBy_def)
  have s: "sorted (map ?key ?res)"
    by (simp add: sortRoots_def sortBy_def)
  have st: "filter (\<lambda>r. ?key r = k) ?res = filter (\<lambda>r. ?key r = k) roots"
    by (simp add: sortRoots_def sortBy_def sort_key_stable)
  have len: "length ?res = length roots"
    using m by (metis size_mset)
  have before: "rootPath (?res ! i) \<in> set order"
    if "i < j" "j < length roots" "rootPath (?res ! j) \<in> set order"
       "indexOf order (rootPath (?res ! j)) < int (length roots)"
  proof (rule ccontr)
    assume "rootPath (?res ! i) \<notin> set order"
    then have "?key (?res ! i) = int (length roots)" by (rule desiredKey_absent)
    moreover have "?key (?res ! j) < int (length roots)"
      using that by (simp add: desiredKey_present)
    moreover have "?key (?res ! i) \<le> ?key (?res ! j)"
      using sorted_nth_mono [OF s, of i j] that len by simp
    ultimately show False by simp
  qed
  have before': "rootPath (?res ! i) \<in> set order"
    if "distinct order" "set order \<subseteq> rootPath ` set roots" "i < j" "j < length roots"
       "rootPath (?res ! j) \<in> set order"
    using before that distinct_order_index_bound [of order roots] by blast
  show ?thesis using m s st before before' by blast
qed

subsection \<open>Caching a selection\<close>

lemma splice1_indexOf: "x \<in> set xs \<Longrightarrow> splice1 xs (nat (indexOf xs x)) = remove1 x xs"
proof (induction xs)
  case Nil
  then show ?case by simp
next
  case (Cons y ys)
  show ?case
  proof (cases "y = x")
    case True
    then show ?thesis by (simp add: splice1_def)
  next
    case False
    with Cons.prems have in_ys: "x \<in> set ys" by simp
    then have nn: "0 \<le> indexOf ys x" using indexOf_present [of x ys] by simp
    then have "nat (indexOf ys x + 1) = Suc (nat (indexOf ys x))" by simp
    with Cons.IH [OF in_ys] False nn show ?thesis
      by (simp add: splice1_def Let_def)
  qed
qed

lemma count_list_remove1: "count_list (remove1 x xs) x = count_list xs x - 1"
  by (induction xs) auto

lemma recentRootsOf_put_last: "recentRootsOf (cache_put c ''last'' v) = recentRootsOf c"
  by (simp add: recentRootsOf_def cache_put_def)

lemma cacheSelection_recent:
  "cacheSelection c dir root ''recentRoots''
     = Some (JArray (rootPath root # remove1 (rootPath root) (recentRootsOf c)))"
proof (cases "rootPath root \<in> set (recentRootsOf c)")
  case True
  then have "0 \<le> indexOf (recentRootsOf c) (rootPath root)"
    using indexOf_present [of "rootPath root" "recentRootsOf c"] by simp
  then show ?thesis
    using True unfolding cacheSelection_def Let_def recentRootsOf_put_last
    by (simp add: cache_put_def splice1_indexOf)
next
  case False
  then have "indexOf (recentRootsOf c) (rootPath root) = - 1" by (rule indexOf_absent)
  then show ?thesis
    using False unfolding cacheSelection_def Let_def recentRootsOf_put_last
    by (simp add: cache_put_def remove1_idem)
qed

lemma cacheSelection_last: "cacheSelection c dir root ''last'' = Some (JObject dir)"
  by (simp add: cacheSelection_def Let_def cache_put_def)

lemma hd_sort_key_least:
  assumes "x \<in> set xs"
  shows "f (hd (sort_key f xs)) \<le> f x" and "hd (sort_key f xs) \<in> set xs"
proof -
  let ?s = "sort_key f xs"
  have ne: "?s \<noteq> []" using assms by (metis empty_iff list.set(1) set_sort)
  have "x \<in> set ?s" using assms by simp
  then obtain i where i: "i < length ?s" "?s ! i = x" by (metis in_set_conv_nth)
  have "sorted (map f ?s)" by simp
  from sorted_nth_mono [OF this, of 0 i] i have "map f ?s ! 0 \<le> map f ?s ! i" by simp
  moreover have "0 < length ?s" using assms by (cases xs) simp_all
  ultimately have "f (?s ! 0) \<le> f x" using i by (simp del: length_sort)
  then show "f (hd ?s) \<le> f x" using ne by (simp add: hd_conv_nth)
  have "hd ?s \<in> set ?s" using ne by (rule hd_in_set)
  then show "hd ?s \<in> set xs" by simp
qed

lemma sortRoots_recent_first:
  assumes "root \<in> set roots" and "order \<noteq> []" and "hd order = rootPath root"
  shows "rootPath (hd (sortRoots roots order)) = rootPath root"
    and "hd (sortRoots roots order) \<in> set roots"
proof -
  let ?h = "hd (sortRoots roots order)"
  have k0: "desiredKey roots order root = 0"
    using assms(2,3) indexOf_zero_iff [of order "rootPath root"] by (simp add: desiredKey_def)
  have "desiredKey roots order ?h \<le> desiredKey roots order root"
    unfolding sortRoots_def sortBy_def by (rule hd_sort_key_least [OF assms(1)])
  with k0 desiredKey_nonneg [of roots order ?h] have h0: "desiredKey roots order ?h = 0" by simp
  have len: "roots \<noteq> []" using assms(1) by auto
  have "indexOf order (rootPath ?h) = 0"
  proof (cases "rootPath ?h \<in> set order")
    case True
    then show ?thesis using h0 by (simp add: desiredKey_present)
  next
    case False
    then show ?thesis using h0 len by (simp add: desiredKey_absent)
  qed
  then show "rootPath ?h = rootPath root"
    using assms(3) indexOf_zero_iff [of order "rootPath ?h"] by simp
  show "?h \<in> set roots"
    unfolding sortRoots_def sortBy_def by (rule hd_sort_key_least [OF assms(1)])
qed

text \<open>
  Claim C6. After \<^verbatim>\<open>cacheSelection(cache, dir, root)\<close> the cache holds \<^verbatim>\<open>dir\<close> under
  \<^verbatim>\<open>"last"\<close>, and under \<^verbatim>\<open>"recentRoots"\<close> the root's path followed by the former list
  without its first occurrence of that path. So the path is at the front; it occurs
  exactly once when it occurred at most once before; and in the next
  \<^verbatim>\<open>sortRoots\<close> over roots that include the selected one, the first root has the
  selected root's path (and is the selected root when the roots' paths are distinct).
\<close>

theorem cacheSelection_front:
  "cacheSelection c dir root ''last'' = Some (JObject dir)
   \<and> cacheSelection c dir root ''recentRoots''
       = Some (JArray (rootPath root # remove1 (rootPath root) (recentRootsOf c)))
   \<and> hd (recentRootsOf (cacheSelection c dir root)) = rootPath root
   \<and> (count_list (recentRootsOf c) (rootPath root) \<le> 1 \<longrightarrow>
        count_list (recentRootsOf (cacheSelection c dir root)) (rootPath root) = 1)
   \<and> (distinct (recentRootsOf c) \<longrightarrow> distinct (recentRootsOf (cacheSelection c dir root)))
   \<and> (root \<in> set roots \<longrightarrow>
        rootPath (hd (sortRoots roots (recentRootsOf (cacheSelection c dir root)))) = rootPath root)
   \<and> (root \<in> set roots \<and> distinct (map rootPath roots) \<longrightarrow>
        hd (sortRoots roots (recentRootsOf (cacheSelection c dir root))) = root)"
proof -
  let ?c = "cacheSelection c dir root"
  let ?p = "rootPath root"
  have rr: "recentRootsOf ?c = ?p # remove1 ?p (recentRootsOf c)"
    by (simp add: recentRootsOf_def cacheSelection_recent)
  have cnt: "count_list (recentRootsOf ?c) ?p = 1" if "count_list (recentRootsOf c) ?p \<le> 1"
    using that by (simp add: rr count_list_remove1)
  have dist: "distinct (recentRootsOf ?c)" if "distinct (recentRootsOf c)"
    using that by (simp add: rr)
  have first: "rootPath (hd (sortRoots roots (recentRootsOf ?c))) = ?p" if "root \<in> set roots"
    using sortRoots_recent_first(1) [OF that, of "recentRootsOf ?c"] by (simp add: rr)
  have same: "hd (sortRoots roots (recentRootsOf ?c)) = root"
    if "root \<in> set roots" "distinct (map rootPath roots)"
  proof -
    have "hd (sortRoots roots (recentRootsOf ?c)) \<in> set roots"
      using sortRoots_recent_first(2) [OF that(1), of "recentRootsOf ?c"] by (simp add: rr)
    with first [OF that(1)] that show ?thesis
      by (meson distinct_map inj_onD)
  qed
  show ?thesis
    using cacheSelection_last cacheSelection_recent rr cnt dist first same by simp
qed

text \<open>
  Claim C5 as stated fails for an order list longer than the list of roots: with the
  roots \<^verbatim>\<open>/a\<close>, \<^verbatim>\<open>/b\<close> and the order \<^verbatim>\<open>/x\<close>, \<^verbatim>\<open>/y\<close>, \<^verbatim>\<open>/z\<close>, \<^verbatim>\<open>/b\<close> the absent
  root \<^verbatim>\<open>/a\<close> (key 2) sorts before the present root \<^verbatim>\<open>/b\<close> (key 3).
\<close>

theorem sortRoots_unseen_before_seen:
  "sortRoots [rA, rB] [''/x'', ''/y'', ''/z'', ''/b''] = [rA, rB]
   \<and> rootPath rA \<notin> set [''/x'', ''/y'', ''/z'', ''/b'']
   \<and> rootPath rB \<in> set [''/x'', ''/y'', ''/z'', ''/b'']"
  by (simp add: sortRoots_def sortBy_def desiredKey_def rA_def rB_def)

lemma sortRoots_example: "sortRoots [rA, rB, rC] [''/c'', ''/b''] = [rC, rB, rA]"
  by (simp add: sortRoots_def sortBy_def desiredKey_def rA_def rB_def rC_def)

theorem sortRoots_stable_sort_witness:
  "sortRoots [rA, rB, rC] [''/c'', ''/b''] = [rC, rB, rA]
   \<and> mset (sortRoots [rA, rB, rC] [''/c'', ''/b'']) = mset [rA, rB, rC]
   \<and> rootPath (sortRoots [rA, rB, rC] [''/c'', ''/b''] ! 0) \<in> set [''/c'', ''/b'']"
proof -
  let ?roots = "[rA, rB, rC]" and ?order = "[''/c'', ''/b'']"
  have h1: "(0::nat) < 1 \<and> 1 < length ?roots" by simp
  have h2: "rootPath (sortRoots ?roots ?order ! 1) \<in> set ?order"
    unfolding sortRoots_example by (simp add: rB_def)
  have h3: "indexOf ?order (rootPath (sortRoots ?roots ?order ! 1)) < int (length ?roots)"
    unfolding sortRoots_example by (simp add: rB_def)
  from sortRoots_stable_sort [of ?roots ?order 0 0 1] h1 h2 h3
  have "mset (sortRoots ?roots ?order) = mset ?roots"
    and "rootPath (sortRoots ?roots ?order ! 0) \<in> set ?order"
    by blast+
  then show ?thesis using sortRoots_example by simp
qed

theorem cacheSelection_front_witness:
  "cacheSelection cache0 dir0 rA ''recentRoots'' = Some (JArray [''/a'', ''/b''])
   \<and> cacheSelection cache0 dir0 rA ''last'' = Some (JObject dir0)
   \<and> count_list (recentRootsOf (cacheSelection cache0 dir0 rA)) ''/a'' = 1
   \<and> hd (sortRoots [rB, rA] (recentRootsOf (cacheSelection cache0 dir0 rA))) = rA"
proof -
  have rr: "recentRootsOf cache0 = [''/b'', ''/a'']"
    by (simp add: recentRootsOf_def cache0_def)
  have p: "rootPath rA = ''/a''" by (simp add: rA_def)
  have h1: "count_list (recentRootsOf cache0) (rootPath rA) \<le> 1"
    by (simp add: rr p)
  have h2: "rA \<in> set [rB, rA] \<and> distinct (map rootPath [rB, rA])"
    by (simp add: rA_def rB_def)
  from cacheSelection_front [of cache0 dir0 rA "[rB, rA]"] h1 h2
  have "cacheSelection cache0 dir0 rA ''recentRoots''
          = Some (JArray (rootPath rA # remove1 (rootPath rA) (recentRootsOf cache0)))"
    and "cacheSelection cache0 dir0 rA ''last'' = Some (JObject dir0)"
    and "count_list (recentRootsOf (cacheSelection cache0 dir0 rA)) (rootPath rA) = 1"
    and "hd (sortRoots [rB, rA] (recentRootsOf (cacheSelection cache0 dir0 rA))) = rA"
    by blast+
  then show ?thesis by (simp add: rr p)
qed

section \<open>Facts about creating files and folders\<close>

lemma cwd_fs_put: "cwd (fs_put S k e) = cwd S"
  by (simp add: fs_put_def)

lemma lookup_fs_put:
  "lookup (fs_put S k e) q = (if q = [] then Some Dir else if q = k then Some e else lookup S q)"
proof -
  have "map_of (filter (\<lambda>kv. fst kv \<noteq> k) xs) q = map_of xs q" if "q \<noteq> k" for xs :: "(string list \<times> entry) list"
    using that by (induction xs) auto
  then show ?thesis by (simp add: lookup_def fs_put_def)
qed

lemma lookup_nil: "lookup S [] = Some Dir"
  by (simp add: lookup_def)

lemma cwd_mkdirs: "cwd (mkdirs S ks) = cwd S"
  by (induction ks arbitrary: S) (simp_all add: cwd_fs_put)

lemma lookup_mkdirs:
  assumes "[] \<notin> set ks" and "\<not> list_ex (\<lambda>q. is_file (lookup S q)) ks"
  shows "lookup (mkdirs S ks) q = (if q \<in> set ks then Some Dir else lookup S q)"
  using assms
proof (induction ks arbitrary: S)
  case Nil
  then show ?case by simp
next
  case (Cons k ks)
  let ?S = "if lookup S k = None then fs_put S k Dir else S"
  have k: "k \<noteq> []" and ks: "[] \<notin> set ks" using Cons.prems(1) by auto
  have kd: "lookup ?S k = Some Dir"
  proof (cases "lookup S k")
    case None
    then show ?thesis using k by (simp add: lookup_fs_put)
  next
    case (Some e)
    then show ?thesis using Cons.prems(2) by (cases e) (simp_all add: is_file_def)
  qed
  have other: "lookup ?S q = lookup S q" if "q \<noteq> k" for q
    using that by (simp add: lookup_fs_put lookup_nil)
  have "\<not> list_ex (\<lambda>q. is_file (lookup ?S q)) ks"
  proof -
    have "is_file (lookup ?S q) = is_file (lookup S q)" for q
      using kd other [of q] Cons.prems(2) by (cases "q = k") (simp_all add: is_file_def)
    then show ?thesis using Cons.prems(2) by (simp add: list_ex_iff)
  qed
  from Cons.IH [OF ks this] have "lookup (mkdirs ?S ks) q = (if q \<in> set ks then Some Dir else lookup ?S q)" .
  then show ?case
    using kd other [of q] by (cases "q = k") simp_all
qed

lemma set_prefixes_of: "set (prefixes_of k) = {take n k | n. 1 \<le> n \<and> n \<le> length k}"
  by (auto simp: prefixes_of_def)

lemma nil_notin_prefixes_of: "[] \<notin> set (prefixes_of k)"
  by (auto simp: set_prefixes_of)

lemma join_sep_snoc: "ss \<noteq> [] \<Longrightarrow> join_sep (ss @ [s]) = join_sep ss @ CHR ''/'' # s"
  by (induction ss rule: join_sep.induct) simp_all

lemma dirname_end_plain:
  "CHR ''/'' \<notin> set s \<Longrightarrow> s \<noteq> [] \<Longrightarrow> dirname_end (s @ r) m = dirname_end r False"
proof (induction s arbitrary: m)
  case Nil
  then show ?case by simp
next
  case (Cons c s)
  then show ?case by (cases "s = []") auto
qed

lemma join_sep_nonempty: "clean ss \<Longrightarrow> ss \<noteq> [] \<Longrightarrow> join_sep ss \<noteq> []"
  by (cases ss rule: join_sep.cases) (simp_all add: clean_def)

lemma dirname_of_segs:
  assumes "clean (ss @ [s])"
  shows "dirname (of_segs (ss @ [s])) = of_segs ss"
proof -
  from assms have s: "s \<noteq> []" "CHR ''/'' \<notin> set s" and c: "clean ss"
    by (simp_all add: clean_def)
  then have rs: "rev s \<noteq> []" "CHR ''/'' \<notin> set (rev s)" by simp_all
  show ?thesis
  proof (cases "ss = []")
    case True
    have "dirname_end (rev s @ []) True = dirname_end [] False"
      by (rule dirname_end_plain [OF rs(2) rs(1)])
    then show ?thesis
      using True by (simp add: dirname_def of_segs_def isAbsolute_def)
  next
    case False
    have "dirname_end (rev s @ CHR ''/'' # rev (join_sep ss)) True
        = dirname_end (CHR ''/'' # rev (join_sep ss)) False"
      by (rule dirname_end_plain [OF rs(2) rs(1)])
    then have "dirname_end (rev (join_sep (ss @ [s]))) True = Some (length (join_sep ss))"
      using False by (simp add: join_sep_snoc)
    moreover have "length (join_sep ss) \<noteq> 0"
      using join_sep_nonempty [OF c False] by simp
    ultimately show ?thesis
      using False by (simp add: dirname_def of_segs_def isAbsolute_def join_sep_snoc)
  qed
qed

lemma normalize_absolute:
  assumes "isAbsolute q" and "\<not> isFolderDescriptor (normalize q)"
  shows "normalize q = of_segs (normalizeSegs False [] (split_sep q))"
    and "normalizeSegs False [] (split_sep q) \<noteq> []"
proof -
  let ?N = "normalizeSegs False [] (split_sep q)"
  from assms(1) have q: "q \<noteq> []" by (auto simp: isAbsolute_def)
  have ne: "join_sep ?N \<noteq> []"
  proof
    assume "join_sep ?N = []"
    then have "normalize q = ''/''"
      using assms(1) q by (simp add: normalize_def normalizeString_def)
    with assms(2) show False by (simp add: isFolderDescriptor_def)
  qed
  then show "?N \<noteq> []" by auto
  have "\<not> trailingSep q"
  proof
    assume "trailingSep q"
    then have "normalize q = CHR ''/'' # join_sep ?N @ ''/''"
      using assms(1) q ne by (simp add: normalize_def normalizeString_def Let_def)
    with assms(2) show False by (simp add: isFolderDescriptor_def)
  qed
  then show "normalize q = of_segs ?N"
    using assms(1) q ne by (simp add: normalize_def normalizeString_def Let_def of_segs_def)
qed

lemma join_absolute:
  assumes "isAbsolute b" and "\<not> isFolderDescriptor (join b i)"
  shows "\<exists>ss s. clean (ss @ [s]) \<and> join b i = of_segs (ss @ [s])"
proof -
  from assms(1) have b: "b \<noteq> []" by (auto simp: isAbsolute_def)
  define q where "q = (if i = [] then b else b @ ''/'' @ i)"
  have j: "join b i = normalize q"
    using b by (simp add: join_def q_def)
  have a: "isAbsolute q"
    using assms(1) b by (auto simp: q_def isAbsolute_def)
  let ?N = "normalizeSegs False [] (split_sep q)"
  have "clean ?N"
    by (rule normalizeSegs_clean) (auto simp: clean_def split_sep_no_sep)
  moreover have "normalize q = of_segs ?N" and "?N \<noteq> []"
    using normalize_absolute [OF a] assms(2) j by simp_all
  ultimately show ?thesis
    using j by (metis rev_exhaust)
qed

lemma stat_none_lookup:
  assumes "\<not> existsSync S p" and "\<not> isFolderDescriptor p" and "p \<noteq> []"
  shows "lookup S (canon (cwd S) p) = None"
proof (cases "lookup S (canon (cwd S) p)")
  case None
  then show ?thesis .
next
  case (Some e)
  then have "stat S p \<noteq> None"
    using assms(2,3) by (cases e) (simp_all add: stat_def trailingSep_def isFolderDescriptor_def)
  with assms(1) show ?thesis by (simp add: existsSync_def)
qed

text \<open>
  Claim C7. The user chose "Create new file" and typed \<^verbatim>\<open>input\<close>; \<^verbatim>\<open>showInputBox\<close> joined
  it to the (absolute) base directory, giving \<^verbatim>\<open>p\<close>. When \<^verbatim>\<open>p\<close> does not exist, is not
  a folder descriptor, and no file stands in the place of one of its directories, then
  \<^verbatim>\<open>createFileOrFolder\<close> succeeds: \<^verbatim>\<open>mkdirp\<close> first makes every directory above the file
  (all of them are directories in the state \<^verbatim>\<open>S1\<close> it leaves, where the file is still
  missing), and only then \<^verbatim>\<open>appendFileSync\<close> creates the empty file. Nothing but the
  path's own prefixes changes.
\<close>

theorem createFileOrFolder_creates_intermediate:
  assumes "isAbsolute (absolute (fsLocation baseDirectory))"
    and "showInputBox baseDirectory (Some input) = Some p"
    and "\<not> existsSync S p"
    and "\<not> isFolderDescriptor p"
    and "\<forall>n < length (canon (cwd S) p). \<not> is_file (lookup S (take n (canon (cwd S) p)))"
  shows "\<exists>S1 S2. mkdirp_sync S (dirname p) = Inr S1
           \<and> appendFileSync S1 p [] = Inr S2
           \<and> createFileOrFolder S p = Inr S2
           \<and> (\<forall>n < length (canon (cwd S) p).
                 lookup S1 (take n (canon (cwd S) p)) = Some Dir
                 \<and> lookup S2 (take n (canon (cwd S) p)) = Some Dir)
           \<and> lookup S1 (canon (cwd S) p) = None
           \<and> lookup S2 (canon (cwd S) p) = Some (File [])
           \<and> isDirectory S2 (dirname p)
           \<and> stat S2 p = Some (File [])
           \<and> (\<forall>q. q \<notin> set (prefixes_of (canon (cwd S) p)) \<longrightarrow> lookup S2 q = lookup S q)"
proof -
  from assms(2) have pj: "p = join (absolute (fsLocation baseDirectory)) input"
    by (simp add: showInputBox_def)
  with join_absolute [OF assms(1)] assms(4)
  obtain ss s where c: "clean (ss @ [s])" and p: "p = of_segs (ss @ [s])" by blast
  let ?K = "ss @ [s]"
  have cs: "clean ss" using c by (simp add: clean_def)
  have pne: "p \<noteq> []" by (simp add: p of_segs_def)
  have K: "canon (cwd S) p = ?K" for S :: system
    unfolding p by (rule canon_of_segs [OF c])
  have dn: "dirname p = of_segs ss"
    unfolding p by (rule dirname_of_segs [OF c])
  have Kd: "canon (cwd S) (dirname p) = ss" for S :: system
    unfolding dn by (rule canon_of_segs [OF cs])
  have nofile: "\<not> is_file (lookup S (take n ss))" if "n \<le> length ss" for n
  proof -
    from that have "n < length ?K" by simp
    with assms(5) have "\<not> is_file (lookup S (take n ?K))" by (simp add: K)
    with that show ?thesis by simp
  qed
  have nolist: "\<not> list_ex (\<lambda>q. is_file (lookup S q)) (prefixes_of ss)"
    using nofile by (auto simp: list_ex_iff set_prefixes_of)
  define S1 where "S1 = mkdirs S (prefixes_of ss)"
  define S2 where "S2 = fs_put S1 ?K (File [])"
  have m: "mkdirp_sync S (dirname p) = Inr S1"
    using nolist by (simp add: mkdirp_sync_def Kd S1_def Let_def)
  have l1: "lookup S1 q = (if q \<in> set (prefixes_of ss) then Some Dir else lookup S q)" for q
    unfolding S1_def by (rule lookup_mkdirs [OF nil_notin_prefixes_of nolist])
  have cwd1: "cwd S1 = cwd S" by (simp add: S1_def cwd_mkdirs)
  have dirs1: "lookup S1 (take n ?K) = Some Dir" if "n < length ?K" for n
  proof (cases "n = 0")
    case True
    then show ?thesis by (simp add: lookup_nil)
  next
    case False
    with that have "take n ?K = take n ss" and "take n ss \<in> set (prefixes_of ss)"
      by (auto simp: set_prefixes_of)
    then show ?thesis by (simp add: l1)
  qed
  have Knot: "?K \<notin> set (prefixes_of ss)"
  proof
    assume "?K \<in> set (prefixes_of ss)"
    then obtain n where "?K = take n ss" by (auto simp: set_prefixes_of)
    then have "length ?K = length (take n ss)" by simp
    then show False by simp
  qed
  have K0: "lookup S ?K = None"
    using stat_none_lookup [OF assms(3,4) pne] by (simp add: K)
  have K1: "lookup S1 ?K = None"
    using Knot K0 by (simp add: l1)
  have b1: "lookup S1 (butlast ?K) = Some Dir"
    using dirs1 [of "length ss"] by simp
  have nt: "\<not> trailingSep p"
    using assms(4) by (simp add: trailingSep_def isFolderDescriptor_def)
  have a: "appendFileSync S1 p [] = Inr S2"
    using pne nt K1 b1 by (simp add: appendFileSync_def K [of S1] S2_def Let_def)
  have cr: "createFileOrFolder S p = Inr S2"
    using assms(3,4) m a by (simp add: createFileOrFolder_def Let_def)
  have l2: "lookup S2 q = (if q = [] then Some Dir else if q = ?K then Some (File []) else lookup S1 q)" for q
    unfolding S2_def by (rule lookup_fs_put)
  have dirs2: "lookup S2 (take n ?K) = Some Dir" if "n < length ?K" for n
  proof -
    have "take n ?K \<noteq> ?K"
      using that by (metis length_take min.absorb4 nat_neq_iff)
    then show ?thesis using dirs1 [OF that] by (simp add: l2)
  qed
  have K2: "lookup S2 ?K = Some (File [])" by (simp add: l2)
  have cwd2: "cwd S2 = cwd S" by (simp add: S2_def cwd_fs_put cwd1)
  have dne: "dirname p \<noteq> []" by (simp add: dn of_segs_def)
  have isd: "isDirectory S2 (dirname p)"
    using dirs2 [of "length ss"] dne by (simp add: isDirectory_def stat_def Kd [of S2])
  have st: "stat S2 p = Some (File [])"
    using K2 nt pne by (simp add: stat_def K [of S2])
  have frame: "lookup S2 q = lookup S q" if "q \<notin> set (prefixes_of ?K)" for q
  proof -
    have "?K \<in> set (prefixes_of ?K)"
      unfolding set_prefixes_of by (rule CollectI, rule exI [of _ "length ?K"]) simp
    moreover have "x \<in> set (prefixes_of ?K)" if "x \<in> set (prefixes_of ss)" for x
    proof -
      from that obtain n where "x = take n ss" "1 \<le> n" "n \<le> length ss"
        by (auto simp: set_prefixes_of)
      then have "x = take n ?K \<and> 1 \<le> n \<and> n \<le> length ?K" by simp
      then show ?thesis unfolding set_prefixes_of by blast
    qed
    ultimately have "q \<noteq> ?K" "q \<notin> set (prefixes_of ss)" using that by auto
    then show ?thesis by (simp add: l2 l1 lookup_nil)
  qed
  show ?thesis
    using m a cr dirs1 dirs2 K1 K2 isd st frame by (simp add: K)
qed

text \<open>
  Claim C9. For a path that exists, \<^verbatim>\<open>createFileOrFolder\<close> returns without an error and
  leaves the whole system as it was: no directory is created, no file is touched.
\<close>

theorem createFileOrFolder_existing_unchanged:
  "existsSync S absolutePath \<Longrightarrow> createFileOrFolder S absolutePath = Inr S"
  by (simp add: createFileOrFolder_def)

lemma sys0_new_path: "canon (cwd sys0) ''/w/p/x/y/z.txt'' = [''w'', ''p'', ''x'', ''y'', ''z.txt'']"
  by code_simp

theorem createFileOrFolder_creates_intermediate_witness:
  "\<exists>S2. createFileOrFolder sys0 ''/w/p/x/y/z.txt'' = Inr S2
     \<and> lookup sys0 [''w'', ''p'', ''x''] = None
     \<and> lookup S2 [''w'', ''p'', ''x''] = Some Dir
     \<and> lookup S2 [''w'', ''p'', ''x'', ''y''] = Some Dir
     \<and> stat S2 ''/w/p/x/y/z.txt'' = Some (File [])"
proof -
  let ?p = "''/w/p/x/y/z.txt''"
  have h1: "isAbsolute (absolute (fsLocation dir0))" by code_simp
  have h2: "showInputBox dir0 (Some ''x/y/z.txt'') = Some ?p" by code_simp
  have h3: "\<not> existsSync sys0 ?p" by code_simp
  have h4: "\<not> isFolderDescriptor ?p" by code_simp
  have "list_all (\<lambda>n. \<not> is_file (lookup sys0 (take n [''w'', ''p'', ''x'', ''y'', ''z.txt'']))) [0..<5]"
    by code_simp
  then have h5: "\<forall>n < length (canon (cwd sys0) ?p). \<not> is_file (lookup sys0 (take n (canon (cwd sys0) ?p)))"
    unfolding sys0_new_path by (simp add: list_all_iff)
  have n0: "lookup sys0 [''w'', ''p'', ''x''] = None" by code_simp
  from createFileOrFolder_creates_intermediate [OF h1 h2 h3 h4 h5]
  obtain S1 S2 where c: "createFileOrFolder sys0 ?p = Inr S2"
    and d: "\<forall>n < length (canon (cwd sys0) ?p).
              lookup S1 (take n (canon (cwd sys0) ?p)) = Some Dir
              \<and> lookup S2 (take n (canon (cwd sys0) ?p)) = Some Dir"
    and f: "stat S2 ?p = Some (File [])"
    by blast
  have "(3::nat) < length (canon (cwd sys0) ?p)" and "(4::nat) < length (canon (cwd sys0) ?p)"
    unfolding sys0_new_path by simp_all
  with d have "lookup S2 (take 3 (canon (cwd sys0) ?p)) = Some Dir"
    and "lookup S2 (take 4 (canon (cwd sys0) ?p)) = Some Dir"
    by blast+
  then have "lookup S2 [''w'', ''p'', ''x''] = Some Dir" and "lookup S2 [''w'', ''p'', ''x'', ''y''] = Some Dir"
    unfolding sys0_new_path by (simp_all add: numeral_3_eq_3 numeral_eq_Suc)
  with c f n0 show ?thesis by blast
qed

theorem createFileOrFolder_existing_unchanged_witness:
  "existsSync sys0 ''/w/p/a.txt'' \<and> createFileOrFolder sys0 ''/w/p/a.txt'' = Inr sys0"
proof -
  have e: "existsSync sys0 ''/w/p/a.txt''" by code_simp
  from createFileOrFolder_existing_unchanged [OF e] e show ?thesis by simp
qed

section \<open>Facts about the enumeration\<close>

lemma flatten_results_Inr:
  "flatten_results rs = Inr xs \<Longrightarrow> x \<in> set xs \<longleftrightarrow> (\<exists>ys. Inr ys \<in> set rs \<and> x \<in> set ys)"
proof (induction rs arbitrary: xs rule: flatten_results.induct)
  case 1
  then show ?case by simp
next
  case (2 e rs)
  then show ?case by simp
next
  case (3 ys rs)
  from "3.prems" obtain zs where z: "flatten_results rs = Inr zs" and xs: "xs = ys @ zs"
    by (auto split: sum.splits)
  from "3.IH" [OF z] xs show ?case by auto
qed

lemma gitignoreToGlob_file_Inr:
  "gitignoreToGlob_file P S g = Inr ys \<longleftrightarrow>
     (\<exists>body. stat S g = Some (File body) \<and> ys = gitignoreToGlob P body)"
  by (auto simp: gitignoreToGlob_file_def split: option.splits entry.splits)

lemma gitignoreGlobs_sources:
  assumes "gitignoreGlobs P S root = Inr globs"
  shows "g \<in> set globs \<longleftrightarrow>
    (\<exists>gi body. gi \<in> set (walkupGitignores S root []) \<and> stat S gi = Some (File body)
        \<and> g \<in> set (gitignoreToGlob P body))"
proof -
  have "(\<exists>ys. Inr ys \<in> set (map (gitignoreToGlob_file P S) (walkupGitignores S root [])) \<and> g \<in> set ys)
      \<longleftrightarrow> (\<exists>gi body. gi \<in> set (walkupGitignores S root []) \<and> stat S gi = Some (File body)
        \<and> g \<in> set (gitignoreToGlob P body))"
    (is "?l \<longleftrightarrow> ?r")
  proof
    assume ?l
    then obtain ys gi where "gi \<in> set (walkupGitignores S root [])"
      "gitignoreToGlob_file P S gi = Inr ys" "g \<in> set ys"
      by (metis (no_types) imageE list.set_map)
    then show ?r
      using gitignoreToGlob_file_Inr [of P S gi ys] by blast
  next
    assume ?r
    then obtain gi body where "gi \<in> set (walkupGitignores S root [])"
      "stat S gi = Some (File body)" "g \<in> set (gitignoreToGlob P body)"
      by blast
    moreover from this have "gitignoreToGlob_file P S gi = Inr (gitignoreToGlob P body)"
      by (simp add: gitignoreToGlob_file_def)
    ultimately show ?l
      by (metis (no_types, lifting) image_eqI list.set_map)
  qed
  with flatten_results_Inr [of _ globs g] assms show ?thesis
    by (simp add: gitignoreGlobs_def Let_def)
qed

lemma directoriesSync_members:
  assumes "directoriesSync P cfg S root = Inr dirs" and "gitignoreGlobs P S root = Inr globs"
    and "d \<in> set dirs"
  shows "\<exists>f \<in> set (glob_entries S root).
           d = \<lparr>relative = join sep f, absolute = join root f\<rparr> \<and> isDirectory S (absolute d)
           \<and> (\<forall>g \<in> set globs \<union> set (configIgnoredGlobs P cfg root). \<not> minimatch P (invertGlob g) f)"
proof -
  let ?ignore = "map invertGlob (globs @ configIgnoredGlobs P cfg root)"
  from assms(1,2) have "dirs = filter (\<lambda>f. isDirectory S (absolute f))
      (map (\<lambda>f. \<lparr>relative = join sep f, absolute = join root f\<rparr>) (globSync P S root ?ignore))"
    by (simp add: directoriesSync_def Let_def)
  with assms(3) obtain f where f: "f \<in> set (globSync P S root ?ignore)"
    and d: "d = \<lparr>relative = join sep f, absolute = join root f\<rparr>" and i: "isDirectory S (absolute d)"
    by auto
  from f have "f \<in> set (glob_entries S root)" and "\<forall>g \<in> set ?ignore. \<not> minimatch P g f"
    by (simp_all add: globSync_def list_ex_iff)
  with d i show ?thesis by auto
qed

text \<open>
  Claim C3. Every directory that \<^verbatim>\<open>directoriesSync\<close> returns for a root is the image of
  an entry below the root that no ignore pattern matches, where the ignore patterns are
  the globs of every \<^verbatim>\<open>.gitignore\<close> file found on the walk from the root up to the file
  system's root and the globs of the configured excludes, each with its leading
  exclamation mark removed. So no directory that such a pattern matches is listed.
\<close>

theorem directoriesSync_excludes_ignored:
  assumes "directoriesSync P cfg S root = Inr dirs"
  shows "\<forall>d \<in> set dirs. \<exists>f \<in> set (glob_entries S root).
           d = \<lparr>relative = join sep f, absolute = join root f\<rparr> \<and> isDirectory S (absolute d)
           \<and> (\<forall>gi body g. gi \<in> set (walkupGitignores S root [])
                  \<and> stat S gi = Some (File body) \<and> g \<in> set (gitignoreToGlob P body)
                \<longrightarrow> \<not> minimatch P (invertGlob g) f)
           \<and> (\<forall>g \<in> set (configIgnoredGlobs P cfg root). \<not> minimatch P (invertGlob g) f)"
proof
  fix d assume d: "d \<in> set dirs"
  from assms obtain globs where g: "gitignoreGlobs P S root = Inr globs"
    by (auto simp: directoriesSync_def split: sum.splits)
  from directoriesSync_members [OF assms g d] obtain f where f: "f \<in> set (glob_entries S root)"
    "d = \<lparr>relative = join sep f, absolute = join root f\<rparr>" "isDirectory S (absolute d)"
    "\<forall>g \<in> set globs \<union> set (configIgnoredGlobs P cfg root). \<not> minimatch P (invertGlob g) f"
    by blast
  have "\<not> minimatch P (invertGlob x) f"
    if "gi \<in> set (walkupGitignores S root [])" "stat S gi = Some (File body)"
       "x \<in> set (gitignoreToGlob P body)" for gi body x
  proof -
    from that have "x \<in> set globs" using gitignoreGlobs_sources [OF g, of x] by blast
    with f(4) show ?thesis by blast
  qed
  with f show "\<exists>f \<in> set (glob_entries S root).
           d = \<lparr>relative = join sep f, absolute = join root f\<rparr> \<and> isDirectory S (absolute d)
           \<and> (\<forall>gi body g. gi \<in> set (walkupGitignores S root [])
                  \<and> stat S gi = Some (File body) \<and> g \<in> set (gitignoreToGlob P body)
                \<longrightarrow> \<not> minimatch P (invertGlob g) f)
           \<and> (\<forall>g \<in> set (configIgnoredGlobs P cfg root). \<not> minimatch P (invertGlob g) f)"
    by blast
qed

lemma sys1_gitignores: "walkupGitignores sys1 ''/w'' [] = [''/w/.gitignore'']"
  by code_simp

lemma sys1_globs: "gitignoreGlobs platform0 sys1 ''/w'' = Inr [''!out'', ''!out/**'', ''keep'', ''keep/**'']"
  by code_simp

lemma sys1_directories:
  "directoriesSync platform0 settings0 sys1 ''/w'' = Inr [\<lparr>relative = ''/src'', absolute = ''/w/src''\<rparr>]"
  by code_simp

lemma sys1_config: "configIgnoredGlobs platform0 settings0 ''/w''
   = [''!node_modules'', ''!node_modules/**'', ''!dist'', ''!dist/**'']"
  by code_simp

lemma sys1_ignore_file: "stat sys1 ''/w/.gitignore'' = Some (File ignore_text)"
  by code_simp

lemma sys1_ignore_globs:
  "gitignoreToGlob platform0 ignore_text = [''!out'', ''!out/**'', ''keep'', ''keep/**'']"
  by code_simp

theorem directoriesSync_excludes_ignored_witness:
  "directoriesSync platform0 settings0 sys1 ''/w'' = Inr [\<lparr>relative = ''/src'', absolute = ''/w/src''\<rparr>]
   \<and> (\<exists>f. \<lparr>relative = ''/src'', absolute = ''/w/src''\<rparr> = \<lparr>relative = join sep f, absolute = join ''/w'' f\<rparr>
          \<and> \<not> minimatch platform0 (invertGlob ''!out'') f
          \<and> \<not> minimatch platform0 (invertGlob ''!dist'') f)"
proof -
  let ?d = "\<lparr>relative = ''/src'', absolute = ''/w/src''\<rparr>"
  have "?d \<in> set [?d]" by simp
  with directoriesSync_excludes_ignored [OF sys1_directories]
  obtain f where f: "?d = \<lparr>relative = join sep f, absolute = join ''/w'' f\<rparr>"
    and gl: "\<forall>gi body g. gi \<in> set (walkupGitignores sys1 ''/w'' [])
                  \<and> stat sys1 gi = Some (File body) \<and> g \<in> set (gitignoreToGlob platform0 body)
                \<longrightarrow> \<not> minimatch platform0 (invertGlob g) f"
    and cf: "\<forall>g \<in> set (configIgnoredGlobs platform0 settings0 ''/w''). \<not> minimatch platform0 (invertGlob g) f"
    by blast
  have "''/w/.gitignore'' \<in> set (walkupGitignores sys1 ''/w'' [])"
    by (simp add: sys1_gitignores)
  moreover have "''!out'' \<in> set (gitignoreToGlob platform0 ignore_text)"
    by (simp add: sys1_ignore_globs)
  ultimately have "\<not> minimatch platform0 (invertGlob ''!out'') f"
    using gl sys1_ignore_file by blast
  moreover have "\<not> minimatch platform0 (invertGlob ''!dist'') f"
    using cf by (simp add: sys1_config)
  ultimately show ?thesis
    using f sys1_directories by blast
qed

text \<open>
  Claim C4, as amended. \<^verbatim>\<open>invertGlob\<close> removes one leading exclamation mark and leaves a
  glob without one as it is. Whether a pattern \<^verbatim>\<open>p\<close> arrives from the ignore sources as
  \<^verbatim>\<open>!p\<close> or as \<^verbatim>\<open>p\<close>, it is \<^verbatim>\<open>p\<close> that is handed to the listing as an ignore pattern:
  every directory listed is the image of an entry that \<^verbatim>\<open>p\<close> does not match. A negated
  pattern therefore excludes the entries it matches; it restores none.
\<close>

theorem negated_patterns_are_ignored_too:
  assumes "directoriesSync P cfg S root = Inr dirs"
    and "(\<exists>gi body. gi \<in> set (walkupGitignores S root []) \<and> stat S gi = Some (File body)
            \<and> g \<in> set (gitignoreToGlob P body))
         \<or> g \<in> set (configIgnoredGlobs P cfg root)"
    and "g = p \<or> g = CHR ''!'' # p"
    and "p = [] \<or> hd p \<noteq> CHR ''!''"
  shows "invertGlob g = p
         \<and> (\<forall>d \<in> set dirs. \<exists>f \<in> set (glob_entries S root).
               d = \<lparr>relative = join sep f, absolute = join root f\<rparr> \<and> \<not> minimatch P p f)"
proof -
  have inv: "invertGlob g = p"
    using assms(3,4) by (cases p) (auto simp: invertGlob_def)
  from assms(1) obtain globs where g: "gitignoreGlobs P S root = Inr globs"
    by (auto simp: directoriesSync_def split: sum.splits)
  have mem: "g \<in> set globs \<union> set (configIgnoredGlobs P cfg root)"
    using assms(2) gitignoreGlobs_sources [OF g, of g] by blast
  have "\<exists>f \<in> set (glob_entries S root).
          d = \<lparr>relative = join sep f, absolute = join root f\<rparr> \<and> \<not> minimatch P p f"
    if "d \<in> set dirs" for d
    using directoriesSync_members [OF assms(1) g that] mem inv by metis
  with inv show ?thesis by blast
qed

theorem negated_patterns_are_ignored_too_witness:
  "invertGlob ''keep'' = ''keep''
   \<and> (\<exists>f. \<lparr>relative = ''/src'', absolute = ''/w/src''\<rparr> = \<lparr>relative = join sep f, absolute = join ''/w'' f\<rparr>
          \<and> \<not> minimatch platform0 ''keep'' f)"
proof -
  let ?d = "\<lparr>relative = ''/src'', absolute = ''/w/src''\<rparr>"
  have h2: "(\<exists>gi body. gi \<in> set (walkupGitignores sys1 ''/w'' []) \<and> stat sys1 gi = Some (File body)
            \<and> ''keep'' \<in> set (gitignoreToGlob platform0 body))
         \<or> ''keep'' \<in> set (configIgnoredGlobs platform0 settings0 ''/w'')"
    using sys1_ignore_file by (auto simp: sys1_gitignores sys1_ignore_globs)
  have h3: "''keep'' = ''keep'' \<or> ''keep'' = CHR ''!'' # ''keep''" by simp
  have h4: "''keep'' = [] \<or> hd ''keep'' \<noteq> CHR ''!''" by simp
  have "?d \<in> set [?d]" by simp
  with negated_patterns_are_ignored_too [OF sys1_directories h2 h3 h4]
  show ?thesis by blast
qed

text \<open>
  Claim C4 as stated fails. The ignore file of \<^verbatim>\<open>/w\<close> ignores \<^verbatim>\<open>out\<close> and negates
  \<^verbatim>\<open>keep\<close>; the converter hands back \<^verbatim>\<open>keep\<close> for the negated line, \<^verbatim>\<open>invertGlob\<close>
  leaves it alone, and it is passed as an ignore pattern. The directory \<^verbatim>\<open>/w/keep\<close>
  matches it and is not listed, though it is listed when the negated line is taken out
  of the file.
\<close>

theorem negated_pattern_not_surfaced:
  "stat sys1 ''/w/.gitignore'' = Some (File ignore_text)
   \<and> gitignoreGlobs platform0 sys1 ''/w'' = Inr [''!out'', ''!out/**'', ''keep'', ''keep/**'']
   \<and> ''keep'' \<in> set (glob_entries sys1 ''/w'')
   \<and> isDirectory sys1 (join ''/w'' ''keep'')
   \<and> minimatch platform0 ''keep'' ''keep''
   \<and> directoriesSync platform0 settings0 sys1 ''/w''
       = Inr [\<lparr>relative = ''/src'', absolute = ''/w/src''\<rparr>]
   \<and> directoriesSync platform0 settings0 (fs_put sys1 [''w'', ''.gitignore''] (File ''out'')) ''/w''
       = Inr [\<lparr>relative = ''/keep'', absolute = ''/w/keep''\<rparr>,
              \<lparr>relative = ''/src'', absolute = ''/w/src''\<rparr>]"
proof -
  have "''keep'' \<in> set (glob_entries sys1 ''/w'')" by code_simp
  moreover have "isDirectory sys1 (join ''/w'' ''keep'')" by code_simp
  moreover have "minimatch platform0 ''keep'' ''keep''" by (simp add: platform0_def)
  moreover have "directoriesSync platform0 settings0 (fs_put sys1 [''w'', ''.gitignore''] (File ''out'')) ''/w''
       = Inr [\<lparr>relative = ''/keep'', absolute = ''/w/keep''\<rparr>,
              \<lparr>relative = ''/src'', absolute = ''/w/src''\<rparr>]"
    by code_simp
  ultimately show ?thesis
    using sys1_ignore_file sys1_globs sys1_directories by simp
qed

section \<open>Facts about the command\<close>

lemma split_lines_nonempty: "split_lines t \<noteq> []"
  by (induction t) (auto split: list.splits)

lemma join_lines_cons_char: "join_lines ((c # s) # ss) = c # join_lines (s # ss)"
  by (cases ss) simp_all

lemma join_split_lines: "join_lines (split_lines t) = t"
proof (induction t)
  case Nil
  then show ?case by simp
next
  case (Cons c cs)
  obtain s ss where sp: "split_lines cs = s # ss"
    using split_lines_nonempty [of cs] by (cases "split_lines cs") auto
  show ?case
  proof (cases "c = CHR 0x0A")
    case True
    then show ?thesis using Cons.IH sp by simp
  next
    case False
    then show ?thesis using Cons.IH sp by (simp add: join_lines_cons_char)
  qed
qed

lemma line_end_last: "line_end t (lineCount t - 1) = length t"
proof -
  have "0 < length (split_lines t)" using split_lines_nonempty [of t] by simp
  then have "take (Suc (length (split_lines t) - 1)) (split_lines t) = split_lines t" by simp
  then show ?thesis by (simp add: line_end_def lineCount_def join_split_lines)
qed

lemma line_end_last': "line_end t (lineCount t - Suc 0) = length t"
  using line_end_last [of t] by simp

lemma insert_at_end: "insert_at t (length t) s = t @ s"
  by (simp add: insert_at_def)

lemma document_text_set:
  "document_text (set_document w n t) m = (if m = n then t else document_text w m)"
proof -
  have "map_of (filter (\<lambda>kv. fst kv \<noteq> n) xs) m = map_of xs m" if "m \<noteq> n"
    for xs :: "(string \<times> string) list"
    using that by (induction xs) auto
  then show ?thesis by (simp add: document_text_def set_document_def)
qed

lemma documents_set_lookup:
  "map_of (documents (set_document w n t)) m = (if m = n then Some t else map_of (documents w) m)"
proof -
  have "map_of (filter (\<lambda>kv. fst kv \<noteq> n) xs) m = map_of xs m" if "m \<noteq> n"
    for xs :: "(string \<times> string) list"
    using that by (induction xs) auto
  then show ?thesis by (simp add: set_document_def)
qed

lemma os_set_document: "os (set_document w n t) = os w"
  by (simp add: set_document_def)

lemma document_text_save: "document_text (save w p) m = document_text w m"
  by (simp add: save_def document_text_def)

lemma document_text_show: "document_text (showTextDocument w p) m = document_text w m"
  by (simp add: showTextDocument_def document_text_def)

lemma openTextDocument_ok:
  assumes "can_open w path"
  shows "\<exists>w'. openTextDocument w path = Inr w' \<and> document_text w' path = target_text w path
    \<and> (\<forall>m. m \<noteq> path \<longrightarrow> document_text w' m = document_text w m) \<and> os w' = os w"
proof (cases "map_of (documents w) path")
  case (Some t)
  then show ?thesis
    by (simp add: openTextDocument_def target_text_def document_text_def)
next
  case None
  with assms obtain t where "stat (os w) path = Some (File t)"
    by (auto simp: can_open_def is_file_def split: option.splits entry.splits)
  with None show ?thesis
    by (simp add: openTextDocument_def target_text_def document_text_set os_set_document)
qed

lemma moveToExistingFile_result:
  assumes "can_open (edit_delete w editor sel) fileUri"
  shows "\<exists>w'. moveToExistingFile w editor sel s fileUri = (Returned, w')
    \<and> document_text w' fileUri = target_text (edit_delete w editor sel) fileUri @ CHR 0x0A # s
    \<and> (fileName editor \<noteq> fileUri \<longrightarrow>
          document_text w' (fileName editor) = delete_range (document_text w (fileName editor)) sel)
    \<and> lookup (os w') (canon (cwd (os w)) fileUri) = (if canon (cwd (os w)) fileUri = [] then Some Dir
          else Some (File (document_text w' fileUri)))"
proof -
  let ?w1 = "edit_delete w editor sel"
  from openTextDocument_ok [OF assms] obtain w2 where o: "openTextDocument ?w1 fileUri = Inr w2"
    and t2: "document_text w2 fileUri = target_text ?w1 fileUri"
    and f2: "\<forall>m. m \<noteq> fileUri \<longrightarrow> document_text w2 m = document_text ?w1 m"
    and os2: "os w2 = os ?w1"
    by blast
  let ?doc = "document_text w2 fileUri"
  let ?w4 = "set_document (showTextDocument w2 fileUri) fileUri (?doc @ CHR 0x0A # s)"
  have m: "moveToExistingFile w editor sel s fileUri = (Returned, save ?w4 fileUri)"
    using o by (simp add: moveToExistingFile_def Let_def document_text_show line_end_last' insert_at_end)
  have d4: "document_text ?w4 fileUri = ?doc @ CHR 0x0A # s"
    by (simp add: document_text_set)
  have src: "document_text (save ?w4 fileUri) (fileName editor)
      = delete_range (document_text w (fileName editor)) sel" if "fileName editor \<noteq> fileUri"
    using that f2 by (simp add: document_text_save document_text_set document_text_show edit_delete_def)
  have os4: "os ?w4 = os w"
    using os2 by (simp add: os_set_document showTextDocument_def edit_delete_def)
  have "os (save ?w4 fileUri)
      = fs_put (os w) (canon (cwd (os w)) fileUri) (File (document_text ?w4 fileUri))"
    unfolding save_def os4 by simp
  then have "lookup (os (save ?w4 fileUri)) (canon (cwd (os w)) fileUri)
      = (if canon (cwd (os w)) fileUri = [] then Some Dir
         else Some (File (document_text (save ?w4 fileUri) fileUri)))"
    by (simp only: lookup_fs_put document_text_save refl if_True)
  with m d4 src t2 show ?thesis
    by (auto simp: document_text_save)
qed

lemma command_reaches_existing:
  assumes "activeTextEditor w = Some editor"
    and "getText (document_text w (fileName editor)) (selection editor) \<noteq> []"
    and "workspaceRoots w \<noteq> []"
    and "name = cacheNamespace (join_semicolon (map rootPath (workspaceRoots w)))"
    and "dirQuickPickItems P w (sortRoots (workspaceRoots w) (recentRootsOf (globalState w name)))
           (globalState w name) = (Inr items, c1)"
    and "pick (dirPick U) items = Some dirSelection"
    and "option dirSelection = Some dir"
    and "rootForDir (workspaceRoots w) dir = Some selectedRoot"
    and "pick (filePick U) (fileChoices (findFiles (os w) (absolute (fsLocation dir)))) = Some choice"
    and "uri choice = Some fileUri"
  shows "command P U w
    = moveToExistingFile
        (w\<lparr>globalState := (globalState w)(name := cacheSelection c1 dir selectedRoot)\<rparr>)
        editor (selection editor)
        (getText (document_text w (fileName editor)) (selection editor)) fileUri"
  using assms(1-3,5-10) unfolding command_def assms(4)
  by (simp add: Let_def)

lemma target_text_edit_delete:
  "target_text (edit_delete w editor sel) path
     = (if path = fileName editor then delete_range (document_text w (fileName editor)) sel
        else target_text w path)"
  by (simp add: target_text_def edit_delete_def documents_set_lookup os_set_document
      cong: option.case_cong)

lemma can_open_edit_delete: "can_open w path \<Longrightarrow> can_open (edit_delete w editor sel) path"
  by (simp add: can_open_def edit_delete_def documents_set_lookup os_set_document)

text \<open>
  Claim C1. The command runs with a non-empty selection in a workspace, the user picks
  a directory and then one of its files (an item with a \<^verbatim>\<open>uri\<close>), and the file can be
  opened. Then the command returns normally; the target document is its former text
  (after the deletion, when the target is the source document itself), followed by a
  newline and the selected text; the selection is gone from the source document; and
  the target is saved with that text.
\<close>

theorem command_moves_selection_to_existing_file:
  assumes "activeTextEditor w = Some editor"
    and "selectionText = getText (document_text w (fileName editor)) (selection editor)"
    and "selectionText \<noteq> []"
    and "workspaceRoots w \<noteq> []"
    and "name = cacheNamespace (join_semicolon (map rootPath (workspaceRoots w)))"
    and "fst (dirQuickPickItems P w (sortRoots (workspaceRoots w) (recentRootsOf (globalState w name)))
           (globalState w name)) = Inr items"
    and "pick (dirPick U) items = Some dirSelection"
    and "option dirSelection = Some dir"
    and "rootForDir (workspaceRoots w) dir = Some selectedRoot"
    and "pick (filePick U) (fileChoices (findFiles (os w) (absolute (fsLocation dir)))) = Some choice"
    and "uri choice = Some fileUri"
    and "can_open w fileUri"
  shows "\<exists>w'. command P U w = (Returned, w')
     \<and> document_text w' fileUri
         = (if fileUri = fileName editor
            then delete_range (document_text w (fileName editor)) (selection editor)
            else target_text w fileUri) @ CHR 0x0A # selectionText
     \<and> (fileName editor \<noteq> fileUri \<longrightarrow>
           document_text w' (fileName editor)
             = delete_range (document_text w (fileName editor)) (selection editor))
     \<and> (canon (cwd (os w)) fileUri \<noteq> [] \<longrightarrow>
           lookup (os w') (canon (cwd (os w)) fileUri) = Some (File (document_text w' fileUri)))"
proof -
  let ?c = "globalState w name"
  let ?q = "dirQuickPickItems P w (sortRoots (workspaceRoots w) (recentRootsOf ?c)) ?c"
  let ?w2 = "w\<lparr>globalState := (globalState w)(name := cacheSelection (snd ?q) dir selectedRoot)\<rparr>"
  have q: "?q = (Inr items, snd ?q)"
    using assms(6) by (metis prod.collapse)
  have ne: "getText (document_text w (fileName editor)) (selection editor) \<noteq> []"
    using assms(2,3) by simp
  have c: "command P U w = moveToExistingFile ?w2 editor (selection editor) selectionText fileUri"
    unfolding assms(2)
    by (rule command_reaches_existing [OF assms(1) ne assms(4,5) q assms(7-11)])
  have same: "document_text ?w2 m = document_text w m" for m
    by (simp add: document_text_def)
  have "can_open ?w2 fileUri"
    using assms(12) by (simp add: can_open_def)
  then have "can_open (edit_delete ?w2 editor (selection editor)) fileUri"
    by (rule can_open_edit_delete)
  from moveToExistingFile_result [OF this, of selectionText]
  obtain w' where m: "moveToExistingFile ?w2 editor (selection editor) selectionText fileUri = (Returned, w')"
    and t: "document_text w' fileUri
      = target_text (edit_delete ?w2 editor (selection editor)) fileUri @ CHR 0x0A # selectionText"
    and s: "fileName editor \<noteq> fileUri \<longrightarrow> document_text w' (fileName editor)
      = delete_range (document_text ?w2 (fileName editor)) (selection editor)"
    and l: "lookup (os w') (canon (cwd (os ?w2)) fileUri)
      = (if canon (cwd (os ?w2)) fileUri = [] then Some Dir else Some (File (document_text w' fileUri)))"
    by blast
  have tt: "target_text ?w2 fileUri = target_text w fileUri"
    by (simp add: target_text_def cong: option.case_cong)
  have "document_text w' fileUri
      = (if fileUri = fileName editor
         then delete_range (document_text w (fileName editor)) (selection editor)
         else target_text w fileUri) @ CHR 0x0A # selectionText"
    using t by (simp add: target_text_edit_delete same tt)
  moreover have "fileName editor \<noteq> fileUri \<longrightarrow> document_text w' (fileName editor)
      = delete_range (document_text w (fileName editor)) (selection editor)"
    using s by (simp add: same)
  moreover have "canon (cwd (os w)) fileUri \<noteq> [] \<longrightarrow>
      lookup (os w') (canon (cwd (os w)) fileUri) = Some (File (document_text w' fileUri))"
    using l by simp
  ultimately show ?thesis
    using c m by simp
qed

text \<open>
  Claim C2, as amended. With no active text editor the command returns at once: no
  message, no edit. With an active editor and an empty selection, and with a non-empty
  selection and no workspace folder open, it returns after showing one error message,
  a single line, and nothing but the list of messages changes.
\<close>

theorem command_precondition_failures:
  "(activeTextEditor w = None \<longrightarrow> command P U w = (Returned, w))
   \<and> (activeTextEditor w = Some editor
        \<and> getText (document_text w (fileName editor)) (selection editor) = [] \<longrightarrow>
       command P U w
         = (Returned, w\<lparr>messages := messages w @ [ErrorMessage ''There isn't any text selected.'']\<rparr>))
   \<and> (activeTextEditor w = Some editor
        \<and> getText (document_text w (fileName editor)) (selection editor) \<noteq> []
        \<and> workspaceRoots w = [] \<longrightarrow>
       command P U w
         = (Returned, w\<lparr>messages := messages w @
              [ErrorMessage (''It doesn't look like you have a folder opened in your workspace. ''
                 @ ''Try opening a folder first.'')]\<rparr>))
   \<and> (workspaceFolders w = None \<and> workspace_rootPath w = None \<longrightarrow> workspaceRoots w = [])
   \<and> CHR 0x0A \<notin> set ''There isn't any text selected.''
   \<and> CHR 0x0A \<notin> set (''It doesn't look like you have a folder opened in your workspace. ''
                 @ ''Try opening a folder first.'')"
  by (simp add: command_def showErrorMessage_def workspaceRoots_def Let_def)

theorem command_moves_selection_to_existing_file_witness:
  "fst (command platform0 user0 host0) = Returned
   \<and> document_text (snd (command platform0 user0 host0)) ''/w/src/util.ts''
       = ''export {};'' @ CHR 0x0A # ''let y = 2;''
   \<and> document_text (snd (command platform0 user0 host0)) ''/w/src/main.ts''
       = ''let x = 1;'' @ [CHR 0x0A]"
proof -
  let ?editor = "\<lparr>fileName = ''/w/src/main.ts'', selection = (11, 21)\<rparr>"
  let ?name = "cacheNamespace (join_semicolon (map rootPath (workspaceRoots host0)))"
  let ?q = "fst (dirQuickPickItems platform0 host0
              (sortRoots (workspaceRoots host0) (recentRootsOf (globalState host0 ?name)))
              (globalState host0 ?name))"
  let ?items = "projr ?q"
  let ?dirSelection = "the (pick (dirPick user0) ?items)"
  let ?dir = "the (option ?dirSelection)"
  let ?root = "the (rootForDir (workspaceRoots host0) ?dir)"
  let ?choice = "the (pick (filePick user0) (fileChoices (findFiles (os host0) (absolute (fsLocation ?dir)))))"
  have h1: "activeTextEditor host0 = Some ?editor" by code_simp
  have h2: "''let y = 2;'' = getText (document_text host0 (fileName ?editor)) (selection ?editor)"
    by code_simp
  have h3: "''let y = 2;'' \<noteq> []" by simp
  have h4: "workspaceRoots host0 \<noteq> []" by code_simp
  have h6: "?q = Inr ?items" by code_simp
  have h7: "pick (dirPick user0) ?items = Some ?dirSelection" by code_simp
  have h8: "option ?dirSelection = Some ?dir" by code_simp
  have h9: "rootForDir (workspaceRoots host0) ?dir = Some ?root" by code_simp
  have h10: "pick (filePick user0) (fileChoices (findFiles (os host0) (absolute (fsLocation ?dir))))
      = Some ?choice" by code_simp
  have h11: "uri ?choice = Some ''/w/src/util.ts''" by code_simp
  have h12: "can_open host0 ''/w/src/util.ts''" by code_simp
  have t: "target_text host0 ''/w/src/util.ts'' = ''export {};''" by code_simp
  have d: "delete_range (document_text host0 ''/w/src/main.ts'') (11, 21) = ''let x = 1;'' @ [CHR 0x0A]"
    by code_simp
  from command_moves_selection_to_existing_file [OF h1 h2 h3 h4 refl h6 h7 h8 h9 h10 h11 h12]
  obtain w' where "command platform0 user0 host0 = (Returned, w')"
    and "document_text w' ''/w/src/util.ts'' = target_text host0 ''/w/src/util.ts'' @ CHR 0x0A # ''let y = 2;''"
    and "document_text w' ''/w/src/main.ts'' = delete_range (document_text host0 ''/w/src/main.ts'') (11, 21)"
    by auto
  then show ?thesis
    unfolding t d by simp
qed

theorem command_precondition_failures_witness:
  "command platform0 user0 host_no_editor = (Returned, host_no_editor)
   \<and> command platform0 user0 host_no_selection
       = (Returned, host_no_selection\<lparr>messages := [ErrorMessage ''There isn't any text selected.'']\<rparr>)
   \<and> command platform0 user0 host_no_folder
       = (Returned, host_no_folder\<lparr>messages :=
            [ErrorMessage (''It doesn't look like you have a folder opened in your workspace. ''
               @ ''Try opening a folder first.'')]\<rparr>)"
proof -
  let ?e1 = "\<lparr>fileName = ''/w/src/main.ts'', selection = (3, 3)\<rparr>"
  let ?e2 = "\<lparr>fileName = ''/w/src/main.ts'', selection = (11, 21)\<rparr>"
  have a: "activeTextEditor host_no_editor = None"
    by (simp add: host_no_editor_def)
  have b: "activeTextEditor host_no_selection = Some ?e1
      \<and> getText (document_text host_no_selection (fileName ?e1)) (selection ?e1) = []"
    by code_simp
  have c: "activeTextEditor host_no_folder = Some ?e2
      \<and> getText (document_text host_no_folder (fileName ?e2)) (selection ?e2) \<noteq> []
      \<and> workspaceRoots host_no_folder = []"
    by code_simp
  have m: "messages host_no_selection = []" "messages host_no_folder = []"
    by (simp_all add: host_no_selection_def host_no_folder_def host0_def)
  from command_precondition_failures [where w = host_no_editor and P = platform0 and U = user0] a
  have 1: "command platform0 user0 host_no_editor = (Returned, host_no_editor)" by blast
  from command_precondition_failures [where w = host_no_selection and editor = ?e1 and P = platform0 and U = user0] b
  have 2: "command platform0 user0 host_no_selection
      = (Returned, host_no_selection\<lparr>messages := messages host_no_selection
           @ [ErrorMessage ''There isn't any text selected.'']\<rparr>)" by blast
  from command_precondition_failures [where w = host_no_folder and editor = ?e2 and P = platform0 and U = user0] c
  have 3: "command platform0 user0 host_no_folder
      = (Returned, host_no_folder\<lparr>messages := messages host_no_folder @
              [ErrorMessage (''It doesn't look like you have a folder opened in your workspace. ''
                 @ ''Try opening a folder first.'')]\<rparr>)" by blast
  show ?thesis using 1 2 3 by (simp add: m)
qed

text \<open>
  Claim C2 as stated fails for the first of the three failures: with no active text
  editor the command shows no message.
\<close>

theorem command_no_editor_is_silent:
  "activeTextEditor host_no_editor = None
   \<and> fst (command platform0 user0 host_no_editor) = Returned
   \<and> messages (snd (command platform0 user0 host_no_editor)) = []
   \<and> documents (snd (command platform0 user0 host_no_editor)) = documents host_no_editor"
  by (simp add: command_def host_no_editor_def host0_def)

end
